theory Spec2Isabelle
  imports Main "HOL-Library.Sublist" "HOL-Library.Multiset"
begin

section \<open>Workload descriptors\<close>

text \<open>
  A workload descriptor is a Python dictionary. The source reads it in two ways: keys it
  tests with \<open>'k' in config\<close> before use (\<open>img\<close>, \<open>base-img\<close>, \<open>linux-config\<close>, \<open>files\<close>,
  \<open>init\<close>, \<open>runSpec\<close>, \<open>cfg-file\<close>, \<open>host_init\<close>, \<open>jobs\<close>) are optional fields here, and a
  read of such a key where the source does not test it first is a \<open>KeyError\<close>. Keys the
  source indexes everywhere without any test (\<open>name\<close>, \<open>bin\<close>, \<open>distro\<close>, \<open>builder\<close>,
  \<open>workdir\<close>) are plain fields. The key \<open>initramfs\<close> is only ever tested for presence
  (\<open>'initramfs' in config\<close>), its value is never read, and the only value the source stores
  under it is \<open>True\<close>: the field is the flag "the key is present".
\<close>

record FileSpec =
  src :: string
  dst :: string

record RunSpec =
  command :: "string option"
  path :: "string option"

record workload =
  cfg_name :: string
  bin :: string
  distro :: string
  builder :: string
  workdir :: string
  img :: "string option"
  base_img :: "string option"
  linux_config :: "string option"
  initramfs :: bool
  files :: "FileSpec list option"
  init :: "string option"
  runSpec :: "RunSpec option"
  cfg_file :: "string option"
  host_init :: "string option"

text \<open>A top-level configuration may own named jobs (a dictionary, in insertion order).\<close>

record config = workload +
  jobs :: "(string \<times> workload) list option"

section \<open>Tasks of the dependency graph\<close>

datatype action =
    MakeBin workload bool
  | MakeImage workload
  | BuildBaseImage string

datatype check = UpToDate string

text \<open>
  One task dictionary handed to the executor. A key the source leaves out (\<open>file_dep\<close> and
  \<open>task_dep\<close> of a distro task, \<open>uptodate\<close> of the others) is the empty list.
\<close>

record task =
  name :: string
  actions :: "action list"
  targets :: "string list"
  file_dep :: "string list"
  task_dep :: "string list"
  uptodate :: "check list"

section \<open>The host file system seen by the graph builder\<close>

datatype fsnode = File | Dir "(string \<times> fsnode) list"

text \<open>\<open>os.path.join\<close> on two components.\<close>

definition path_join :: "string \<Rightarrow> string \<Rightarrow> string" where
  "path_join a b =
     (if b \<noteq> [] \<and> hd b = CHR ''/'' then b
      else if a = [] \<or> last a = CHR ''/'' then a @ b
      else a @ ''/'' @ b)"

text \<open>
  The paths appended by the two nested loops over \<open>os.walk(root)\<close>: the walk is top-down,
  so the plain files of a directory come first, then each sub-directory in turn.
\<close>

fun walk :: "string \<Rightarrow> fsnode \<Rightarrow> string list" where
  "walk root File = []"
| "walk root (Dir es) =
     map (\<lambda>e. path_join root (fst e)) (filter (\<lambda>e. snd e = File) es)
     @ concat (map (\<lambda>e. if snd e = File then [] else walk (path_join root (fst e)) (snd e)) es)"

text \<open>"Every file under a directory, recursively", said directly: a path is below a directory
  if it names a plain file of it, or is below one of its sub-directories.\<close>

inductive file_below :: "string \<Rightarrow> fsnode \<Rightarrow> string \<Rightarrow> bool" where
  here: "(f, File) \<in> set es \<Longrightarrow> file_below root (Dir es) (path_join root f)"
| deeper: "(d, Dir sub) \<in> set es \<Longrightarrow> file_below (path_join root d) (Dir sub) p
           \<Longrightarrow> file_below root (Dir es) p"

section \<open>Actions on the outside world\<close>

text \<open>The arguments of the five \<open>log.info\<close> calls of \<open>makeImage\<close>, one constructor for
  each fixed message prefix.\<close>

datatype logmsg =
    ApplyingHostInit string
  | ApplyingFileList "FileSpec list"
  | ApplyingInitScript string
  | ApplyingRunCommand string
  | ApplyingRunScript string

text \<open>
  Everything the program does to its surroundings, in the order it does it:
  \<open>Copy\<close> is \<open>shutil.copy\<close>, \<open>Run argv cwd\<close> is \<open>run(argv, cwd=cwd)\<close>, \<open>Mount img mnt\<close>,
  \<open>Rsync src dst\<close> and \<open>Umount mnt\<close> are the three command lines of \<open>applyFiles\<close>,
  \<open>CheckCall\<close> is \<open>sp.check_call\<close>, \<open>DoitRun\<close> is \<open>DoitMain(loader).run(targets)\<close>.
\<close>

datatype event =
    Copy string string
  | Run "string list" string
  | Mount string string
  | Rsync string string
  | Umount string
  | CheckCall "string list"
  | Mkdir string
  | TempCreate string
  | TempClose string
  | ToCpio string string
  | ConvertInitramfsConfig string string
  | GenerateBootScriptOverlay string "string option"
  | GenRunScript string
  | LogInfo logmsg
  | Print string
  | PrintHelp
  | DoitRun "task list" "string list"

datatype error =
    KeyError string
  | ValueError string
  | TypeError
  | AttributeError string
  | SystemExit string
  | Failed event

text \<open>
  What the program is given by its surroundings. \<open>distros\<close>, \<open>mnt\<close>, \<open>linux_dir\<close> and \<open>jlevel\<close>
  are constants of the absent \<open>util\<close> modules; \<open>fs\<close> is the host file system at graph-build
  time; \<open>set_iter\<close> is the order in which a Python set of these strings is iterated;
  \<open>normpath\<close> is \<open>os.path.normpath\<close>. Whether an outside action succeeds, whether a path
  exists and which name a temporary file gets may depend on everything done so far.
  \<open>overlay_dir\<close> is the directory \<open>builder.generateBootScriptOverlay\<close> returns and
  \<open>genRunScript\<close> the path \<open>genRunScript\<close> returns.
\<close>

record env =
  distros :: "string list"
  mnt :: string
  linux_dir :: string
  jlevel :: string
  fs :: "string \<Rightarrow> fsnode option"
  set_iter :: "string list \<Rightarrow> string list"
  normpath :: "string \<Rightarrow> string"
  succeeds :: "event list \<Rightarrow> event \<Rightarrow> bool"
  path_exists :: "event list \<Rightarrow> string \<Rightarrow> bool"
  tmp_name :: "event list \<Rightarrow> string"
  overlay_dir :: "string \<Rightarrow> string option \<Rightarrow> string"
  genRunScript :: "string \<Rightarrow> string"

definition isdir :: "env \<Rightarrow> string \<Rightarrow> bool" where
  "isdir E p = (case fs E p of Some (Dir es) \<Rightarrow> True | _ \<Rightarrow> False)"

definition opt_list :: "'a option \<Rightarrow> 'a list" where
  "opt_list x = (case x of None \<Rightarrow> [] | Some v \<Rightarrow> [v])"

text \<open>The loop body over \<open>config['files']\<close>: a directory adds every file below it, anything
  else (a file, a glob, a missing path) adds the source string itself.\<close>

definition file_spec_deps :: "env \<Rightarrow> FileSpec \<Rightarrow> string list" where
  "file_spec_deps E fSpec =
     (if isdir E (src fSpec)
      then (case fs E (src fSpec) of Some n \<Rightarrow> walk (src fSpec) n | None \<Rightarrow> [])
      else [src fSpec])"

section \<open>addDep\<close>

definition bin_task :: "workload \<Rightarrow> task" where
  "bin_task c =
     \<lparr> name = bin c, actions = [MakeBin c False], targets = [bin c],
       file_dep = opt_list (linux_config c), task_dep = [], uptodate = [] \<rparr>"

definition initramfs_task :: "workload \<Rightarrow> string \<Rightarrow> task" where
  "initramfs_task c i =
     \<lparr> name = bin c @ ''-initramfs'', actions = [MakeBin c True],
       targets = [bin c @ ''-initramfs''],
       file_dep = [i] @ opt_list (linux_config c), task_dep = [i], uptodate = [] \<rparr>"

definition run_spec_path :: "workload \<Rightarrow> string list" where
  "run_spec_path c =
     (case runSpec c of None \<Rightarrow> [] | Some r \<Rightarrow> opt_list (path r))"

definition img_task :: "env \<Rightarrow> workload \<Rightarrow> string \<Rightarrow> task" where
  "img_task E c i =
     \<lparr> name = i, actions = [MakeImage c], targets = [i],
       file_dep =
         opt_list (base_img c)
         @ (case files c of None \<Rightarrow> [] | Some fl \<Rightarrow> concat (map (file_spec_deps E) fl))
         @ opt_list (init c)
         @ run_spec_path c
         @ opt_list (cfg_file c),
       task_dep = opt_list (base_img c) @ (if init c = None then [] else [bin c]),
       uptodate = [] \<rparr>"

text \<open>
  \<open>addDep(loader, config)\<close> appends to \<open>loader.workloads\<close>; the list is passed in and the
  extended list returned. With the \<open>initramfs\<close> key present and no \<open>img\<close> key the read
  \<open>config['img']\<close> raises.
\<close>

definition addDep :: "env \<Rightarrow> workload \<Rightarrow> task list \<Rightarrow> error + task list" where
  "addDep E c ws =
     (let ws1 = ws @ [bin_task c] in
      case (if initramfs c
            then (case img c of
                    None \<Rightarrow> Inl (KeyError ''img'')
                  | Some i \<Rightarrow> Inr (ws1 @ [initramfs_task c i]))
            else Inr ws1) of
        Inl e \<Rightarrow> Inl e
      | Inr ws2 \<Rightarrow>
          (case img c of
             None \<Rightarrow> Inr ws2
           | Some i \<Rightarrow> Inr (ws2 @ [img_task E c i])))"

section \<open>buildDepGraph\<close>

definition distro_task :: "workload \<Rightarrow> string \<Rightarrow> task" where
  "distro_task dCfg i =
     \<lparr> name = i, actions = [BuildBaseImage (builder dCfg)], targets = [i],
       file_dep = [], task_dep = [], uptodate = [UpToDate (builder dCfg)] \<rparr>"

text \<open>\<open>cfgs\<close> is the dictionary from configuration path to descriptor.\<close>

type_synonym cfgs = "(string \<times> config) list"

fun add_distros :: "cfgs \<Rightarrow> string list \<Rightarrow> task list \<Rightarrow> error + task list" where
  "add_distros cfgs [] ws = Inr ws"
| "add_distros cfgs (d # ds) ws =
     (case map_of cfgs d of
        None \<Rightarrow> Inl (KeyError d)
      | Some dCfg \<Rightarrow>
          add_distros cfgs ds
            (case img dCfg of
               None \<Rightarrow> ws
             | Some i \<Rightarrow> ws @ [distro_task (workload.truncate dCfg) i]))"

fun add_jobs :: "env \<Rightarrow> workload list \<Rightarrow> task list \<Rightarrow> error + task list" where
  "add_jobs E [] ws = Inr ws"
| "add_jobs E (jCfg # js) ws =
     (case addDep E jCfg ws of
        Inl e \<Rightarrow> Inl e
      | Inr ws1 \<Rightarrow> add_jobs E js ws1)"

fun add_configs :: "env \<Rightarrow> cfgs \<Rightarrow> string list \<Rightarrow> task list \<Rightarrow> error + task list" where
  "add_configs E cfgs [] ws = Inr ws"
| "add_configs E cfgs (cfgPath # ps) ws =
     (case map_of cfgs cfgPath of
        None \<Rightarrow> Inl (KeyError cfgPath)
      | Some config \<Rightarrow>
          (case addDep E (workload.truncate config) ws of
             Inl e \<Rightarrow> Inl e
           | Inr ws1 \<Rightarrow>
               (case (case jobs config of
                        None \<Rightarrow> Inr ws1
                      | Some js \<Rightarrow> add_jobs E (map snd js) ws1) of
                  Inl e \<Rightarrow> Inl e
                | Inr ws2 \<Rightarrow> add_configs E cfgs ps ws2)))"

text \<open>
  \<open>buildDepGraph(cfgs)\<close>. The loader's task list is the class attribute
  \<open>doitLoader.workloads\<close>, empty when the program starts; the graph is built once in a
  run, so it starts from the empty list. The second loop goes over the set
  \<open>set(cfgs.keys()) - set(distros)\<close> in the set's iteration order.
\<close>

definition non_distro_keys :: "env \<Rightarrow> cfgs \<Rightarrow> string list" where
  "non_distro_keys E cfgs =
     set_iter E (filter (\<lambda>k. k \<notin> set (distros E)) (remdups (map fst cfgs)))"

definition buildDepGraph :: "env \<Rightarrow> cfgs \<Rightarrow> error + task list" where
  "buildDepGraph E cfgs =
     (case add_distros cfgs (distros E) [] of
        Inl e \<Rightarrow> Inl e
      | Inr ws \<Rightarrow> add_configs E cfgs (non_distro_keys E cfgs) ws)"

section \<open>The world and the bookkeeping of effects\<close>

text \<open>
  The world records every action attempted (\<open>trace\<close>, oldest first), the image mounted at
  the mount point, and two facts about boot scripts: \<open>staged\<close> maps the glob of an overlay
  directory to the boot script the directory was last generated for (\<open>Some None\<close> is the
  clearing overlay), and \<open>boot_hook\<close> maps an image to the script it runs at boot. Two
  overlays generated for the same script by two calls are two overlays: \<open>staged_at\<close> keeps
  the position in the trace of the call that generated what a directory holds, and
  \<open>hook_from\<close> the position of the call whose overlay an image's boot hook comes from.
\<close>

record world =
  trace :: "event list"
  mounted :: "string option"
  staged :: "string \<Rightarrow> string option option"
  boot_hook :: "string \<Rightarrow> string option"
  staged_at :: "string \<Rightarrow> nat option"
  hook_from :: "string \<Rightarrow> nat option"

text \<open>
  Modelled from the spec: \<open>builder.generateBootScriptOverlay\<close> is absent from the source.
  The spec gives its interface as \<open>generateBootScriptOverlay(scriptPath | none) -> path to
  an overlay directory\<close>, where \<open>none\<close> produces an overlay that removes any previously
  installed boot hook. So generating an overlay stages the script in the returned
  directory, and copying that directory's content onto the root of the mounted image
  makes the staged script (or none) the image's boot hook. Copying a file over an image
  path carries the hook along, mounting and unmounting set and free the mount point, and
  no other action is taken to touch these maps. The effect is applied to the world in which
  the action is already the last entry of the trace, so its position is the length of the
  trace less one.
\<close>

definition effect :: "env \<Rightarrow> event \<Rightarrow> world \<Rightarrow> world" where
  "effect E ev w =
     (case ev of
        Copy s d \<Rightarrow>
          w\<lparr>boot_hook := (boot_hook w)(d := boot_hook w s),
            hook_from := (hook_from w)(d := hook_from w s)\<rparr>
      | Mount i m \<Rightarrow> w\<lparr>mounted := Some i\<rparr>
      | Umount m \<Rightarrow> w\<lparr>mounted := None\<rparr>
      | GenerateBootScriptOverlay b x \<Rightarrow>
          w\<lparr>staged := (staged w)(path_join (overlay_dir E b x) ''*'' := Some x),
            staged_at := (staged_at w)(path_join (overlay_dir E b x) ''*''
                                        := Some (length (trace w) - 1))\<rparr>
      | Rsync s d \<Rightarrow>
          (case mounted w of
             None \<Rightarrow> w
           | Some i \<Rightarrow>
               if d = normpath E (mnt E @ ''/'')
               then (case staged w s of
                       None \<Rightarrow> w
                     | Some x \<Rightarrow>
                         w\<lparr>boot_hook := (boot_hook w)(i := x),
                           hook_from := (hook_from w)(i := staged_at w s)\<rparr>)
               else w)
      | _ \<Rightarrow> w)"

text \<open>A procedure runs in a world and either returns (\<open>None\<close>) or raises, leaving the
  world as it is at that moment.\<close>

type_synonym proc = "world \<Rightarrow> error option \<times> world"

definition skip :: proc where
  "skip w = (None, w)"

definition raise :: "error \<Rightarrow> proc" where
  "raise e w = (Some e, w)"

text \<open>An action that cannot fail in the program's eyes: logging, printing, and the
  executor's \<open>run\<close>, whose return code the source drops.\<close>

definition emit :: "event \<Rightarrow> proc" where
  "emit ev w = (None, w\<lparr>trace := trace w @ [ev]\<rparr>)"

text \<open>An outside action that raises when it fails (a non-zero exit status of \<open>run\<close> or
  \<open>check_call\<close>, an error of \<open>shutil.copy\<close>); it takes effect only when it succeeds.\<close>

definition ext :: "env \<Rightarrow> event \<Rightarrow> proc" where
  "ext E ev w =
     (if succeeds E (trace w) ev
      then (None, effect E ev (w\<lparr>trace := trace w @ [ev]\<rparr>))
      else (Some (Failed ev), w\<lparr>trace := trace w @ [ev]\<rparr>))"

definition seq :: "proc \<Rightarrow> proc \<Rightarrow> proc" where
  "seq f g w = (case f w of (None, w1) \<Rightarrow> g w1 | (Some e, w1) \<Rightarrow> (Some e, w1))"

text \<open>\<open>try: f finally: g\<close>. The handler always runs; if it raises, its error is the one
  that propagates.\<close>

definition try_finally :: "proc \<Rightarrow> proc \<Rightarrow> proc" where
  "try_finally f g w =
     (case f w of
        (r, w1) \<Rightarrow> (case g w1 of (None, w2) \<Rightarrow> (r, w2) | (Some e, w2) \<Rightarrow> (Some e, w2)))"

definition require_exists :: "env \<Rightarrow> string \<Rightarrow> error \<Rightarrow> proc" where
  "require_exists E p e w = (if path_exists E (trace w) p then (None, w) else (Some e, w))"

text \<open>A read of \<open>config['img']\<close>.\<close>

definition with_img :: "workload \<Rightarrow> (string \<Rightarrow> proc) \<Rightarrow> proc" where
  "with_img c f = (case img c of None \<Rightarrow> raise (KeyError ''img'') | Some i \<Rightarrow> f i)"

section \<open>applyFiles and applyOverlay\<close>

fun copy_files :: "env \<Rightarrow> FileSpec list \<Rightarrow> proc" where
  "copy_files E [] w = (None, w)"
| "copy_files E (f # fl) w =
     seq (ext E (Rsync (src f) (normpath E (mnt E @ dst f)))) (copy_files E fl) w"

definition applyFiles :: "env \<Rightarrow> string \<Rightarrow> FileSpec list \<Rightarrow> proc" where
  "applyFiles E i fl =
     seq (ext E (Mount i (mnt E)))
         (try_finally (copy_files E fl) (ext E (Umount (mnt E))))"

definition applyOverlay :: "env \<Rightarrow> string \<Rightarrow> string \<Rightarrow> proc" where
  "applyOverlay E i overlay = applyFiles E i [\<lparr>src = path_join overlay ''*'', dst = ''/''\<rparr>]"

section \<open>Launching\<close>

definition qemu_cmd :: "workload \<Rightarrow> bool \<Rightarrow> string list" where
  "qemu_cmd c ini =
     [''qemu-system-riscv64'', ''-nographic'', ''-smp'', ''4'', ''-machine'', ''virt'',
      ''-m'', ''4G'', ''-kernel'', (if ini then bin c @ ''-initramfs'' else bin c),
      ''-object'', ''rng-random,filename=/dev/urandom,id=rng0'',
      ''-device'', ''virtio-rng-device,rng=rng0'',
      ''-device'', ''virtio-net-device,netdev=usernet'',
      ''-netdev'', ''user,id=usernet,hostfwd=tcp::10000-:22'']
     @ (case img c of
          None \<Rightarrow> []
        | Some i \<Rightarrow>
            if ini then []
            else [''-device'', ''virtio-blk-device,drive=hd0'',
                  ''-drive'', ''file='' @ i @ '',format=raw,id=hd0'',
                  ''-append'', ''ro root=/dev/vda''])"

definition launchQemu :: "env \<Rightarrow> workload \<Rightarrow> bool \<Rightarrow> proc" where
  "launchQemu E c ini = ext E (CheckCall (qemu_cmd c ini))"

definition spike_cmd :: "workload \<Rightarrow> string list" where
  "spike_cmd c = [''spike'', ''-p4'', ''-m4096'', bin c @ ''-initramfs'']"

definition launchSpike :: "env \<Rightarrow> workload \<Rightarrow> bool \<Rightarrow> proc" where
  "launchSpike E c ini =
     (if ini \<or> img c = None
      then ext E (CheckCall (spike_cmd c))
      else raise (ValueError ''Spike does not support disk-based configurations''))"

section \<open>makeBin\<close>

definition no_linux_config_msg :: string where
  "no_linux_config_msg =
     ''No linux config defined. This is only supported for workloads based on ''
     @ [CHR 0x27] @ ''bare'' @ [CHR 0x27]"

definition make_vmlinux :: "env \<Rightarrow> proc" where
  "make_vmlinux E = ext E (Run [''make'', ''ARCH=riscv'', ''vmlinux'', jlevel E] (linux_dir E))"

text \<open>The body of the \<open>with tempfile.NamedTemporaryFile\<close> block; the file is closed (and
  deleted) however the block is left.\<close>

definition build_initramfs :: "env \<Rightarrow> workload \<Rightarrow> string \<Rightarrow> proc" where
  "build_initramfs E c linuxCfg w =
     (let t = tmp_name E (trace w) in
      seq (ext E (TempCreate t))
          (try_finally
             (with_img c (\<lambda>i.
                seq (ext E (ToCpio i t))
               (seq (ext E (ConvertInitramfsConfig linuxCfg t))
               (seq (ext E (Run [''make'', ''ARCH=riscv'', ''olddefconfig''] (linux_dir E)))
                    (make_vmlinux E)))))
             (emit (TempClose t))) w)"

definition ensure_pk_build :: "env \<Rightarrow> proc" where
  "ensure_pk_build E w =
     (if path_exists E (trace w) ''riscv-pk/build'' then (None, w)
      else ext E (Mkdir ''riscv-pk/build'') w)"

definition makeBin :: "env \<Rightarrow> workload \<Rightarrow> bool \<Rightarrow> proc" where
  "makeBin E c ini =
     (case linux_config c of
        Some lc \<Rightarrow>
          seq (ext E (Copy lc (path_join (linux_dir E) ''.config'')))
         (seq (if ini then build_initramfs E c (path_join (linux_dir E) ''.config'')
               else make_vmlinux E)
         (seq (ensure_pk_build E)
         (seq (ext E (Run [''../configure'', ''--host=riscv64-unknown-elf'',
                           ''--with-payload=../../riscv-linux/vmlinux''] ''riscv-pk/build''))
         (seq (ext E (Run [''make'', jlevel E] ''riscv-pk/build''))
              (ext E (Copy ''riscv-pk/build/bbl''
                        (if ini then bin c @ ''-initramfs'' else bin c)))))))
      | None \<Rightarrow>
          if distro c \<noteq> ''bare'' then raise (ValueError no_linux_config_msg) else skip)"

section \<open>makeImage\<close>

definition seed_stage :: "env \<Rightarrow> workload \<Rightarrow> proc" where
  "seed_stage E c =
     (case base_img c of
        None \<Rightarrow> raise (KeyError ''base-img'')
      | Some b \<Rightarrow> with_img c (\<lambda>i. ext E (Copy b i)))"

definition host_init_stage :: "env \<Rightarrow> workload \<Rightarrow> proc" where
  "host_init_stage E c =
     (case host_init c of
        None \<Rightarrow> skip
      | Some h \<Rightarrow>
          seq (emit (LogInfo (ApplyingHostInit h)))
         (seq (require_exists E h (ValueError (''host_init script '' @ h @ '' not found.'')))
              (ext E (Run [h] (workdir c)))))"

definition files_stage :: "env \<Rightarrow> workload \<Rightarrow> proc" where
  "files_stage E c =
     (case files c of
        None \<Rightarrow> skip
      | Some fl \<Rightarrow>
          seq (emit (LogInfo (ApplyingFileList fl)))
              (with_img c (\<lambda>i. applyFiles E i fl)))"

text \<open>Generate the boot-script overlay for \<open>script\<close> and apply it to the image.\<close>

definition install_boot_script :: "env \<Rightarrow> workload \<Rightarrow> string option \<Rightarrow> proc" where
  "install_boot_script E c script =
     seq (ext E (GenerateBootScriptOverlay (builder c) script))
         (with_img c (\<lambda>i. applyOverlay E i (overlay_dir E (builder c) script)))"

definition target_init_stage :: "env \<Rightarrow> workload \<Rightarrow> proc" where
  "target_init_stage E c =
     (case init c of
        None \<Rightarrow> skip
      | Some s \<Rightarrow>
          seq (emit (LogInfo (ApplyingInitScript s)))
         (seq (require_exists E s (ValueError (''Init script '' @ s @ '' not found.'')))
         (seq (install_boot_script E c (Some s))
         (seq (emit (Print (''Launching: '' @ bin c)))
         (seq (launchQemu E c False)
              (install_boot_script E c None))))))"

definition install_run_script :: "env \<Rightarrow> workload \<Rightarrow> string \<Rightarrow> proc" where
  "install_run_script E c scriptPath =
     seq (require_exists E scriptPath
            (ValueError (''Run script '' @ scriptPath @ '' not found.'')))
         (install_boot_script E c (Some scriptPath))"

text \<open>With neither a command nor a path, the message \<open>"Applying run script: " + None\<close> is
  a type error.\<close>

definition run_spec_stage :: "env \<Rightarrow> workload \<Rightarrow> proc" where
  "run_spec_stage E c =
     (case runSpec c of
        None \<Rightarrow> skip
      | Some spec \<Rightarrow>
          (case command spec of
             Some cmd \<Rightarrow>
               seq (emit (LogInfo (ApplyingRunCommand cmd)))
              (seq (ext E (GenRunScript cmd))
                   (install_run_script E c (genRunScript E cmd)))
           | None \<Rightarrow>
               (case path spec of
                  None \<Rightarrow> raise TypeError
                | Some p \<Rightarrow>
                    seq (emit (LogInfo (ApplyingRunScript p)))
                        (install_run_script E c p))))"

definition makeImage :: "env \<Rightarrow> workload \<Rightarrow> proc" where
  "makeImage E c =
     seq (seed_stage E c)
    (seq (host_init_stage E c)
    (seq (files_stage E c)
    (seq (target_init_stage E c)
         (run_spec_stage E c))))"

section \<open>The command line and the two handlers\<close>

datatype cmd = Build | Launch

text \<open>
  The parsed arguments. Without a sub-command the namespace has none of \<open>job\<close>,
  \<open>initramfs\<close>, \<open>spike\<close>, \<open>func\<close>; \<open>-j\<close> given without a value leaves \<open>job\<close> as \<open>None\<close>;
  \<open>spike\<close> is read for \<open>launch\<close> only. \<open>config_file\<close> is the path after \<open>os.path.abspath\<close>.
\<close>

record args =
  config_file :: string
  arg_command :: "cmd option"
  job :: "string option"
  arg_initramfs :: bool
  spike :: bool

definition job_targets :: "workload \<Rightarrow> string list \<times> string list" where
  "job_targets jCfg =
     ([bin jCfg] @ (if initramfs jCfg then [bin jCfg @ ''-initramfs''] else []),
      opt_list (img jCfg))"

text \<open>The loop over \<open>config['jobs'].values()\<close>, extending \<open>binList\<close> and \<open>imgList\<close>.\<close>

fun all_job_targets ::
  "workload list \<Rightarrow> string list \<times> string list \<Rightarrow> string list \<times> string list" where
  "all_job_targets [] acc = acc"
| "all_job_targets (jCfg # js) (binList, imgList) =
     all_job_targets js
       (binList @ fst (job_targets jCfg), imgList @ snd (job_targets jCfg))"

definition handleBuild :: "env \<Rightarrow> args \<Rightarrow> cfgs \<Rightarrow> proc" where
  "handleBuild E a cfgs =
     (case buildDepGraph E cfgs of
        Inl e \<Rightarrow> raise e
      | Inr loader \<Rightarrow>
          (case map_of cfgs (config_file a) of
             None \<Rightarrow> raise (KeyError (config_file a))
           | Some config \<Rightarrow>
               (let base = job_targets (workload.truncate config) in
                case jobs config of
                  None \<Rightarrow> emit (DoitRun loader (fst base @ snd base))
                | Some js \<Rightarrow>
                    if job a = Some ''all''
                    then (let l = all_job_targets (map snd js) base
                          in emit (DoitRun loader (fst l @ snd l)))
                    else (case job a of
                            None \<Rightarrow> raise (KeyError ''None'')
                          | Some j \<Rightarrow>
                              (case map_of js j of
                                 None \<Rightarrow> raise (KeyError j)
                               | Some jCfg \<Rightarrow>
                                   (let l = all_job_targets [jCfg] base
                                    in emit (DoitRun loader (fst l @ snd l))))))))"

definition spike_disk_msg :: string where
  "spike_disk_msg =
     ''Spike currently does not support disk-based ''
     @ ''configurations. Please use an initramfs based image.''"

text \<open>The configuration \<open>handleLaunch\<close> picks: the named job, or the base workload.\<close>

definition launch_config :: "args \<Rightarrow> config \<Rightarrow> error + workload" where
  "launch_config a baseConfig =
     (case jobs baseConfig of
        None \<Rightarrow> Inr (workload.truncate baseConfig)
      | Some js \<Rightarrow>
          if job a = Some ''all'' then Inr (workload.truncate baseConfig)
          else (case job a of
                  None \<Rightarrow> Inl (KeyError ''None'')
                | Some j \<Rightarrow>
                    (case map_of js j of None \<Rightarrow> Inl (KeyError j) | Some jCfg \<Rightarrow> Inr jCfg)))"

definition launch_on :: "env \<Rightarrow> args \<Rightarrow> workload \<Rightarrow> proc" where
  "launch_on E a c =
     (if spike a
      then (if img c \<noteq> None \<and> \<not> initramfs c then raise (SystemExit spike_disk_msg)
            else launchSpike E c (arg_initramfs a))
      else launchQemu E c (arg_initramfs a))"

definition handleLaunch :: "env \<Rightarrow> args \<Rightarrow> cfgs \<Rightarrow> proc" where
  "handleLaunch E a cfgs =
     (case map_of cfgs (config_file a) of
        None \<Rightarrow> raise (KeyError (config_file a))
      | Some baseConfig \<Rightarrow>
          (case launch_config a baseConfig of
             Inl e \<Rightarrow> raise e
           | Inr c \<Rightarrow> launch_on E a c))"

section \<open>main\<close>

text \<open>\<open>targetCfg['initramfs'] = True\<close>, and the same for each of its jobs.\<close>

definition force_initramfs :: "config \<Rightarrow> config" where
  "force_initramfs targetCfg =
     targetCfg\<lparr> initramfs := True,
                jobs := map_option (map (\<lambda>(n, j). (n, j\<lparr>initramfs := True\<rparr>))) (jobs targetCfg) \<rparr>"

text \<open>The descriptors are shared objects: the change is seen through \<open>cfgs\<close>.\<close>

definition store_config :: "cfgs \<Rightarrow> string \<Rightarrow> config \<Rightarrow> cfgs" where
  "store_config cfgs k c = map (\<lambda>(k', c'). if k' = k then (k', c) else (k', c')) cfgs"

definition no_jobs_msg :: "string \<Rightarrow> string" where
  "no_jobs_msg j =
     ''Job '' @ j @ '' requested, but no jobs specified in config file'' @ [CHR 0x0A]"

definition call_func :: "env \<Rightarrow> cmd \<Rightarrow> args \<Rightarrow> cfgs \<Rightarrow> proc" where
  "call_func E f a cfgs = (case f of Build \<Rightarrow> handleBuild E a cfgs | Launch \<Rightarrow> handleLaunch E a cfgs)"

text \<open>\<open>main\<close> from the point where the arguments are parsed and the configurations
  loaded.\<close>

definition main :: "env \<Rightarrow> args \<Rightarrow> cfgs \<Rightarrow> proc" where
  "main E a cfgs =
     (case map_of cfgs (config_file a) of
        None \<Rightarrow> raise (KeyError (config_file a))
      | Some targetCfg0 \<Rightarrow>
          (case arg_command a of
             None \<Rightarrow> raise (AttributeError ''initramfs'')
           | Some f \<Rightarrow>
               (let targetCfg = (if arg_initramfs a then force_initramfs targetCfg0
                                 else targetCfg0);
                    cfgs1 = (if arg_initramfs a
                             then store_config cfgs (config_file a) targetCfg else cfgs)
                in if job a \<noteq> Some ''all''
                   then (case job a of
                           None \<Rightarrow> raise TypeError
                         | Some j \<Rightarrow>
                             if jobs targetCfg \<noteq> None
                             then call_func E f
                                    (a\<lparr>job := Some (cfg_name targetCfg @ ''-'' @ j)\<rparr>) cfgs1
                             else seq (emit (Print (no_jobs_msg j)))
                                 (seq (emit PrintHelp) (call_func E f a cfgs1)))
                   else call_func E f a cfgs1)))"

section \<open>Concrete surroundings and descriptors\<close>

text \<open>\<open>str.split(sep)\<close> and \<open>os.path.normpath\<close> of \<open>posixpath\<close>, for the concrete environment.\<close>

fun split_sep :: "char \<Rightarrow> string \<Rightarrow> string list" where
  "split_sep s [] = [[]]"
| "split_sep s (x # xs) =
     (if x = s then [] # split_sep s xs
      else (case split_sep s xs of [] \<Rightarrow> [[x]] | y # ys \<Rightarrow> (x # y) # ys))"

fun norm_comps :: "bool \<Rightarrow> string list \<Rightarrow> string list \<Rightarrow> string list" where
  "norm_comps rooted [] new_comps = new_comps"
| "norm_comps rooted (cmp # comps) new_comps =
     (if cmp = [] \<or> cmp = ''.'' then norm_comps rooted comps new_comps
      else if cmp \<noteq> ''..'' \<or> (\<not> rooted \<and> new_comps = [])
              \<or> (new_comps \<noteq> [] \<and> last new_comps = ''..'')
      then norm_comps rooted comps (new_comps @ [cmp])
      else if new_comps \<noteq> [] then norm_comps rooted comps (butlast new_comps)
      else norm_comps rooted comps new_comps)"

fun join_sep :: "string list \<Rightarrow> string" where
  "join_sep [] = []"
| "join_sep [x] = x"
| "join_sep (x # y # ys) = x @ ''/'' @ join_sep (y # ys)"

definition posix_normpath :: "string \<Rightarrow> string" where
  "posix_normpath p =
     (if p = [] then ''.''
      else
        let initial_slashes =
              (if take 1 p \<noteq> ''/'' then 0
               else if take 2 p = ''//'' \<and> take 3 p \<noteq> ''///'' then 2 else (1::nat));
            q = replicate initial_slashes CHR ''/''
                @ join_sep (norm_comps (initial_slashes \<noteq> 0) (split_sep CHR ''/'' p) [])
        in if q = [] then ''.'' else q)"

text \<open>A host on which every outside action succeeds and every path asked for exists, with
  one overlay directory \<open>/ov\<close> holding a file and a sub-directory with a file.\<close>

definition env0 :: env where
  "env0 =
     \<lparr> distros = [''br-base''], mnt = ''/mnt'', linux_dir = ''riscv-linux'', jlevel = ''-j4'',
       fs = (\<lambda>p. if p = ''/ov'' then Some (Dir [(''a'', File), (''d'', Dir [(''b'', File)])])
                 else None),
       set_iter = (\<lambda>ks. ks),
       normpath = posix_normpath,
       succeeds = (\<lambda>h ev. True),
       path_exists = (\<lambda>h p. True),
       tmp_name = (\<lambda>h. ''/tmp/initramfs.cpio''),
       overlay_dir = (\<lambda>b script. ''/overlay''),
       genRunScript = (\<lambda>c. ''/run.sh'') \<rparr>"

text \<open>The same host, on which every \<open>rsync\<close> fails.\<close>

definition env_copy_fails :: env where
  "env_copy_fails =
     env0\<lparr> succeeds := (\<lambda>h ev. case ev of Rsync s d \<Rightarrow> False | _ \<Rightarrow> True) \<rparr>"

definition world0 :: world where
  "world0 =
     \<lparr> trace = [], mounted = None, staged = (\<lambda>p. None), boot_hook = (\<lambda>i. None),
       staged_at = (\<lambda>p. None), hook_from = (\<lambda>i. None) \<rparr>"

text \<open>A descriptor with only the keys the source never tests, on a distro other than
  \<open>bare\<close>: it has no image and no kernel configuration.\<close>

definition wl_meta :: workload where
  "wl_meta =
     \<lparr> cfg_name = ''w'', bin = ''/w-bin'', distro = ''br'', builder = ''br'', workdir = ''/wd'',
       img = None, base_img = None, linux_config = None, initramfs = False, files = None,
       init = None, runSpec = None, cfg_file = None, host_init = None \<rparr>"

text \<open>A descriptor with an image copied from a base image and no \<open>cfg-file\<close> key.\<close>

definition wl_img :: workload where
  "wl_img = wl_meta\<lparr> img := Some ''/w.img'', base_img := Some ''/base.img'' \<rparr>"

text \<open>An image with every optional part: an overlay directory, an init script, a run
  script given as a path, and the configuration file; the initramfs variant is asked
  for.\<close>

definition wl_full :: workload where
  "wl_full =
     wl_img\<lparr> linux_config := Some ''/w.kcfg'', initramfs := True,
             files := Some [\<lparr>src = ''/ov'', dst = ''/etc''\<rparr>, \<lparr>src = ''/one'', dst = ''/''\<rparr>],
             init := Some ''/init.sh'',
             runSpec := Some \<lparr>command = None, path = Some ''/run-me.sh''\<rparr>,
             cfg_file := Some ''/w.json'', host_init := Some ''/host.sh'' \<rparr>"

text \<open>The run script is the very script named as init script.\<close>

definition wl_same_script :: workload where
  "wl_same_script =
     wl_img\<lparr> init := Some ''/s.sh'', runSpec := Some \<lparr>command = None, path = Some ''/s.sh''\<rparr> \<rparr>"

text \<open>A kernel configuration on the \<open>bare\<close> distro.\<close>

definition wl_bare_linux :: workload where
  "wl_bare_linux = wl_meta\<lparr> distro := ''bare'', linux_config := Some ''/w.kcfg'' \<rparr>"

text \<open>The same host, on which unmounting fails.\<close>

definition env_umount_fails :: env where
  "env_umount_fails =
     env0\<lparr> succeeds := (\<lambda>h ev. case ev of Umount m \<Rightarrow> False | _ \<Rightarrow> True) \<rparr>"

text \<open>An image with a host-init script and one overlay file.\<close>

definition wl_host :: workload where
  "wl_host = wl_img\<lparr> files := Some [\<lparr>src = ''/one'', dst = ''/etc''\<rparr>],
                     host_init := Some ''/host.sh'' \<rparr>"

text \<open>A configuration is a workload descriptor with its jobs.\<close>

definition cfg_of :: "workload \<Rightarrow> (string \<times> workload) list option \<Rightarrow> config" where
  "cfg_of wl js = workload.extend wl (config.fields js)"

text \<open>The loaded configurations: the distro \<open>br-base\<close> with its base image, a workload
  \<open>/w.json\<close> without jobs, and a workload \<open>/v.json\<close> on \<open>bare\<close> with one job \<open>v-j1\<close>.\<close>

definition wl_base :: workload where
  "wl_base = wl_meta\<lparr> cfg_name := ''br-base'', bin := ''/br-bin'', img := Some ''/base.img'' \<rparr>"

definition wl_job :: workload where
  "wl_job = wl_img\<lparr> cfg_name := ''v-j1'', bin := ''/j1-bin'', img := Some ''/j1.img'' \<rparr>"

definition wl_v :: workload where
  "wl_v = wl_bare_linux\<lparr> cfg_name := ''v'', bin := ''/v-bin'' \<rparr>"

definition cfgs0 :: cfgs where
  "cfgs0 = [(''br-base'', cfg_of wl_base None),
            (''/w.json'', cfg_of wl_img None),
            (''/v.json'', cfg_of wl_v (Some [(''v-j1'', wl_job)]))]"

text \<open>The tasks of these configurations, in the order the builder meets them.\<close>

definition graph0 :: "task list" where
  "graph0 = [distro_task wl_base ''/base.img'',
             bin_task wl_img, img_task env0 wl_img ''/w.img'',
             bin_task wl_v,
             bin_task wl_job, img_task env0 wl_job ''/j1.img'']"

text \<open>\<open>build\<close> of \<open>/w.json\<close>; \<open>build -j v-j1\<close> of \<open>/v.json\<close>, after \<open>main\<close> has prefixed the job
  name; \<open>build -j j1\<close> of \<open>/w.json\<close>, which has no jobs.\<close>

definition args_w :: args where
  "args_w = \<lparr> config_file = ''/w.json'', arg_command = Some Build, job = Some ''all'',
              arg_initramfs = False, spike = False \<rparr>"

definition args_v :: args where
  "args_v = \<lparr> config_file = ''/v.json'', arg_command = Some Build, job = Some ''v-j1'',
              arg_initramfs = False, spike = False \<rparr>"

definition args_w_j1 :: args where
  "args_w_j1 = args_w\<lparr> job := Some ''j1'' \<rparr>"

text \<open>The same host, on which no path asked for exists.\<close>

definition env_missing :: env where
  "env_missing = env0\<lparr> path_exists := (\<lambda>h p. False) \<rparr>"

text \<open>The same host, where a set of keys is iterated in the opposite order.\<close>

definition env_rev :: env where
  "env_rev = env0\<lparr> set_iter := rev \<rparr>"

text \<open>Two workloads with an image each, and \<open>build -i\<close> of the one and of the other.\<close>

definition wl_a :: workload where
  "wl_a = wl_img\<lparr> cfg_name := ''a'', bin := ''/a-bin'', img := Some ''/a.img'' \<rparr>"

definition wl_b :: workload where
  "wl_b = wl_img\<lparr> cfg_name := ''b'', bin := ''/b-bin'', img := Some ''/b.img'' \<rparr>"

definition cfgs_ab :: cfgs where
  "cfgs_ab = [(''br-base'', cfg_of wl_base None),
              (''/a.json'', cfg_of wl_a None),
              (''/b.json'', cfg_of wl_b None)]"

definition args_a_i :: args where
  "args_a_i = \<lparr> config_file = ''/a.json'', arg_command = Some Build, job = Some ''all'',
                arg_initramfs = True, spike = False \<rparr>"

definition args_b_i :: args where
  "args_b_i = args_a_i\<lparr> config_file := ''/b.json'' \<rparr>"

text \<open>The tasks of the configurations \<open>cfgs0\<close> when the keys are met in the opposite
  order.\<close>

definition graph0_rev :: "task list" where
  "graph0_rev = [distro_task wl_base ''/base.img'',
                 bin_task wl_v,
                 bin_task wl_job, img_task env0 wl_job ''/j1.img'',
                 bin_task wl_img, img_task env0 wl_img ''/w.img'']"

text \<open>\<open>build -j j1\<close> of \<open>/v.json\<close> as the command line gives it.\<close>

definition args_v_j1 :: args where
  "args_v_j1 = args_v\<lparr> job := Some ''j1'' \<rparr>"

section \<open>Notions used in the properties\<close>

text \<open>A procedure that never raises a \<open>ValueError\<close>.\<close>

definition no_value_error :: "proc \<Rightarrow> bool" where
  "no_value_error f = (\<forall>w m. fst (f w) \<noteq> Some (ValueError m))"

text \<open>The five states of the image pipeline, in the order of the source.\<close>

datatype stage = Seed | HostInit | FileOverlay | TargetInit | RunSpecInstall

definition pipeline :: "stage list" where
  "pipeline = [Seed, HostInit, FileOverlay, TargetInit, RunSpecInstall]"

fun stage_index :: "stage \<Rightarrow> nat" where
  "stage_index Seed = 1"
| "stage_index HostInit = 2"
| "stage_index FileOverlay = 3"
| "stage_index TargetInit = 4"
| "stage_index RunSpecInstall = 5"

text \<open>Whether the key that guards a state is present; the seed has no guard.\<close>

fun field_set :: "workload \<Rightarrow> stage \<Rightarrow> bool" where
  "field_set c Seed = True"
| "field_set c HostInit = (host_init c \<noteq> None)"
| "field_set c FileOverlay = (files c \<noteq> None)"
| "field_set c TargetInit = (init c \<noteq> None)"
| "field_set c RunSpecInstall = (runSpec c \<noteq> None)"

text \<open>The first action of each state: the copy of the base image for the seed, the
  \<open>log.info\<close> line that opens each of the four guarded blocks for the others.\<close>

fun enters :: "event \<Rightarrow> stage option" where
  "enters (Copy s d) = Some Seed"
| "enters (LogInfo (ApplyingHostInit h)) = Some HostInit"
| "enters (LogInfo (ApplyingFileList fl)) = Some FileOverlay"
| "enters (LogInfo (ApplyingInitScript s)) = Some TargetInit"
| "enters (LogInfo (ApplyingRunCommand c)) = Some RunSpecInstall"
| "enters (LogInfo (ApplyingRunScript p)) = Some RunSpecInstall"
| "enters e = None"

text \<open>The state an action belongs to, for every action only one state issues. Mounting,
  copying, unmounting and the generation of an overlay for a script are issued by more
  than one state and have none.\<close>

fun stage_of :: "event \<Rightarrow> stage option" where
  "stage_of (Copy s d) = Some Seed"
| "stage_of (LogInfo (ApplyingHostInit h)) = Some HostInit"
| "stage_of (Run argv cwd) = Some HostInit"
| "stage_of (LogInfo (ApplyingFileList fl)) = Some FileOverlay"
| "stage_of (LogInfo (ApplyingInitScript s)) = Some TargetInit"
| "stage_of (Print s) = Some TargetInit"
| "stage_of (CheckCall argv) = Some TargetInit"
| "stage_of (GenerateBootScriptOverlay b None) = Some TargetInit"
| "stage_of (LogInfo (ApplyingRunCommand c)) = Some RunSpecInstall"
| "stage_of (LogInfo (ApplyingRunScript p)) = Some RunSpecInstall"
| "stage_of (GenRunScript c) = Some RunSpecInstall"
| "stage_of e = None"

text \<open>An action that opens no state and belongs to state \<open>k\<close> or to none.\<close>

definition quiet :: "stage \<Rightarrow> event \<Rightarrow> bool" where
  "quiet k e = (enters e = None \<and> (stage_of e = None \<or> stage_of e = Some k))"

text \<open>Every action a procedure adds to the trace satisfies \<open>A\<close>.\<close>

definition all_events :: "(event \<Rightarrow> bool) \<Rightarrow> proc \<Rightarrow> bool" where
  "all_events A f = (\<forall>w. \<exists>es. trace (snd (f w)) = trace w @ es \<and> (\<forall>e \<in> set es. A e))"

text \<open>The actions of one state: nothing, or (its key being present) its opening action
  followed by quiet actions of this state.\<close>

definition part :: "workload \<Rightarrow> stage \<Rightarrow> event list \<Rightarrow> bool" where
  "part c k a =
     (a = [] \<or> (field_set c k \<and>
        (\<exists>m rest. a = m # rest \<and> enters m = Some k \<and> stage_of m = Some k
                  \<and> (\<forall>e \<in> set rest. quiet k e))))"

text \<open>A procedure that behaves as state \<open>k\<close>: it adds the actions of that state, and some
  action whenever it returns and the key is present.\<close>

definition stage_run :: "workload \<Rightarrow> stage \<Rightarrow> proc \<Rightarrow> bool" where
  "stage_run c k f =
     (\<forall>w. \<exists>a. trace (snd (f w)) = trace w @ a \<and> part c k a
              \<and> (fst (f w) = None \<and> field_set c k \<longrightarrow> a \<noteq> []))"

text \<open>The actions of consecutive states, one part for each.\<close>

fun parts :: "workload \<Rightarrow> stage list \<Rightarrow> bool \<Rightarrow> event list \<Rightarrow> bool" where
  "parts c [] ok es = (es = [])"
| "parts c (k # ks) ok es =
     (\<exists>a b. es = a @ b \<and> part c k a \<and> (ok \<and> field_set c k \<longrightarrow> a \<noteq> []) \<and> parts c ks ok b)"

text \<open>The script the run-spec state installs: the script generated for the command, or the
  path.\<close>

definition resolve_run_script :: "env \<Rightarrow> RunSpec \<Rightarrow> string option" where
  "resolve_run_script E spec =
     (case command spec of Some cmd \<Rightarrow> Some (genRunScript E cmd) | None \<Rightarrow> path spec)"

text \<open>The graphs handed to the executor, read off a trace.\<close>

fun handed_graphs :: "event list \<Rightarrow> task list list" where
  "handed_graphs [] = []"
| "handed_graphs (DoitRun g t # es) = g # handed_graphs es"
| "handed_graphs (e # es) = handed_graphs es"

text \<open>The tasks the second loop of \<open>buildDepGraph\<close> adds for one key.\<close>

definition config_tasks :: "env \<Rightarrow> cfgs \<Rightarrow> string \<Rightarrow> error + task list" where
  "config_tasks E cfgs k = add_configs E cfgs [k] []"


text \<open>
  The image pipeline in the words of the specification (section 4.2): the actions of
  each of the five states when nothing fails, each state present only if its key is, and
  the pipeline as the states in their order. An overlay application mounts the image,
  copies each entry in the listed order and unmounts.
\<close>

definition rsync_of :: "env \<Rightarrow> FileSpec \<Rightarrow> event" where
  "rsync_of E f = Rsync (src f) (normpath E (mnt E @ dst f))"

definition apply_events :: "env \<Rightarrow> string \<Rightarrow> FileSpec list \<Rightarrow> event list" where
  "apply_events E i fl = Mount i (mnt E) # map (rsync_of E) fl @ [Umount (mnt E)]"

definition on_img :: "workload \<Rightarrow> (string \<Rightarrow> event list) \<Rightarrow> event list" where
  "on_img c g = (case img c of None \<Rightarrow> [] | Some i \<Rightarrow> g i)"

definition overlay_events :: "env \<Rightarrow> workload \<Rightarrow> string option \<Rightarrow> event list" where
  "overlay_events E c x =
     GenerateBootScriptOverlay (builder c) x
     # on_img c (\<lambda>i. apply_events E i
                        [\<lparr>src = path_join (overlay_dir E (builder c) x) ''*'', dst = ''/''\<rparr>])"

definition seed_events :: "workload \<Rightarrow> event list" where
  "seed_events c = (case base_img c of None \<Rightarrow> [] | Some b \<Rightarrow> on_img c (\<lambda>i. [Copy b i]))"

definition host_init_events :: "workload \<Rightarrow> event list" where
  "host_init_events c =
     (case host_init c of
        None \<Rightarrow> []
      | Some h \<Rightarrow> [LogInfo (ApplyingHostInit h), Run [h] (workdir c)])"

definition files_events :: "env \<Rightarrow> workload \<Rightarrow> event list" where
  "files_events E c =
     (case files c of
        None \<Rightarrow> []
      | Some fl \<Rightarrow> LogInfo (ApplyingFileList fl) # on_img c (\<lambda>i. apply_events E i fl))"

definition target_init_events :: "env \<Rightarrow> workload \<Rightarrow> event list" where
  "target_init_events E c =
     (case init c of
        None \<Rightarrow> []
      | Some s \<Rightarrow>
          [LogInfo (ApplyingInitScript s)] @ overlay_events E c (Some s)
          @ [Print (''Launching: '' @ bin c), CheckCall (qemu_cmd c False)]
          @ overlay_events E c None)"

definition run_spec_events :: "env \<Rightarrow> workload \<Rightarrow> event list" where
  "run_spec_events E c =
     (case runSpec c of
        None \<Rightarrow> []
      | Some r \<Rightarrow>
          (case command r of
             Some cmd \<Rightarrow>
               [LogInfo (ApplyingRunCommand cmd), GenRunScript cmd]
               @ overlay_events E c (Some (genRunScript E cmd))
           | None \<Rightarrow>
               (case path r of
                  None \<Rightarrow> []
                | Some p \<Rightarrow> LogInfo (ApplyingRunScript p) # overlay_events E c (Some p))))"

definition pipeline_events :: "env \<Rightarrow> workload \<Rightarrow> event list" where
  "pipeline_events E c =
     seed_events c @ host_init_events c @ files_events E c @ target_init_events E c
     @ run_spec_events E c"

text \<open>
  A run that raises stops short: its actions are an initial part of the full list that
  does not end on a copy, or an initial part ending on the copy that failed, followed by
  the unmount of the \<open>finally\<close> block.
\<close>

definition is_rsync :: "event \<Rightarrow> bool" where
  "is_rsync e = (case e of Rsync s d \<Rightarrow> True | _ \<Rightarrow> False)"

definition tidy :: "event list \<Rightarrow> bool" where
  "tidy xs = (xs = [] \<or> \<not> is_rsync (last xs))"

definition cut_of :: "env \<Rightarrow> event list \<Rightarrow> event list \<Rightarrow> bool" where
  "cut_of E full a =
     ((prefix a full \<and> tidy a)
      \<or> (\<exists>p. a = p @ [Umount (mnt E)] \<and> prefix p full \<and> p \<noteq> [] \<and> is_rsync (last p)))"

text \<open>A procedure whose actions are \<open>full\<close> whenever it returns and a cut of \<open>full\<close> whenever
  it raises.\<close>

definition runs :: "env \<Rightarrow> event list \<Rightarrow> proc \<Rightarrow> bool" where
  "runs E full f =
     (\<forall>w. \<exists>a. trace (snd (f w)) = trace w @ a
              \<and> (if fst (f w) = None then a = full else cut_of E full a))"

section \<open>Properties of the graph builder\<close>

subsection \<open>The walk lists exactly the files below a directory\<close>

lemma walk_sound: "p \<in> set (walk root n) \<Longrightarrow> file_below root n p"
proof (induction root n arbitrary: p rule: walk.induct)
  case (1 root)
  then show ?case by simp
next
  case (2 root es)
  from "2.prems" consider
      (plain) f where "(f, File) \<in> set es" "p = path_join root f"
    | (sub) e where "e \<in> set es" "snd e \<noteq> File"
        "p \<in> set (walk (path_join root (fst e)) (snd e))"
    by (auto split: if_splits)
  then show ?case
  proof cases
    case plain
    then show ?thesis by (auto intro: file_below.here)
  next
    case sub
    obtain d s where e: "e = (d, Dir s)"
      using sub(2) by (metis fsnode.exhaust prod.collapse)
    from "2.IH" [OF sub(1) sub(2) sub(3)]
    have "file_below (path_join root (fst e)) (snd e) p" .
    with e sub(1) show ?thesis by (auto intro: file_below.deeper)
  qed
qed

lemma walk_complete: "file_below root n p \<Longrightarrow> p \<in> set (walk root n)"
proof (induction rule: file_below.induct)
  case (here f es root)
  then show ?case by force
next
  case (deeper d sub es root p)
  then show ?case by force
qed

lemma walk_every_file_below: "set (walk root n) = {p. file_below root n p}"
  using walk_sound walk_complete by blast

lemma addDep_extends: "addDep E c ws = Inr ws' \<Longrightarrow> \<exists>new. ws' = ws @ new"
  by (auto simp: addDep_def Let_def split: if_splits option.splits)

subsection \<open>The image node\<close>

text \<open>
  C2, as the code has it. For a descriptor with an image path, \<open>addDep\<close> appends exactly one
  task whose action is \<open>makeImage\<close> on it. The task is named by the image path; its file
  dependencies are, in this order, the base image (if set), for every overlay source
  either every file below it (a directory, see \<open>walk_every_file_below\<close>) or the source
  string itself, the init script (if set), the run-spec path (if set and a path), and the
  configuration file only if the descriptor has the \<open>cfg-file\<close> key; its task dependencies
  are the base image (if set) and the binary exactly when an init script is set.
\<close>

theorem addDep_image_node:
  assumes "img c = Some i"
  shows "\<exists>new t. addDep E c ws = Inr (ws @ new)
           \<and> filter (\<lambda>t. actions t = [MakeImage c]) new = [t]
           \<and> name t = i \<and> targets t = [i]
           \<and> file_dep t =
               opt_list (base_img c)
               @ concat (map (file_spec_deps E) (case files c of None \<Rightarrow> [] | Some fl \<Rightarrow> fl))
               @ opt_list (init c) @ run_spec_path c @ opt_list (cfg_file c)
           \<and> task_dep t = opt_list (base_img c) @ (if init c = None then [] else [bin c])"
  using assms
  by (cases "files c")
     (auto simp: addDep_def Let_def bin_task_def initramfs_task_def img_task_def)

theorem addDep_image_node_witness:
  "img wl_full = Some ''/w.img''
   \<and> (\<exists>new t. addDep env0 wl_full [] = Inr ([] @ new)
           \<and> filter (\<lambda>t. actions t = [MakeImage wl_full]) new = [t]
           \<and> name t = ''/w.img'' \<and> targets t = [''/w.img'']
           \<and> file_dep t = [''/base.img'', ''/ov/a'', ''/ov/d/b'', ''/one'', ''/init.sh'',
                           ''/run-me.sh'', ''/w.json'']
           \<and> task_dep t = [''/base.img'', ''/w-bin''])"
proof -
  have h: "img wl_full = Some ''/w.img''"
    by (simp add: wl_full_def wl_img_def wl_meta_def)
  have fd: "opt_list (base_img wl_full)
              @ concat (map (file_spec_deps env0)
                          (case files wl_full of None \<Rightarrow> [] | Some fl \<Rightarrow> fl))
              @ opt_list (init wl_full) @ run_spec_path wl_full @ opt_list (cfg_file wl_full)
            = [''/base.img'', ''/ov/a'', ''/ov/d/b'', ''/one'', ''/init.sh'', ''/run-me.sh'',
               ''/w.json'']"
    by (simp add: wl_full_def wl_img_def wl_meta_def opt_list_def run_spec_path_def
         file_spec_deps_def isdir_def env0_def path_join_def)
  have td: "opt_list (base_img wl_full) @ (if init wl_full = None then [] else [bin wl_full])
            = [''/base.img'', ''/w-bin'']"
    by (simp add: wl_full_def wl_img_def wl_meta_def opt_list_def)
  show ?thesis
    using addDep_image_node [OF h, of env0 "[]"] h unfolding fd td by simp
qed

text \<open>C2 as stated fails: a descriptor without the \<open>cfg-file\<close> key has an image task with
  no configuration file among its file dependencies.\<close>

theorem image_node_without_cfg_file:
  "img wl_img = Some ''/w.img'' \<and>
   addDep env0 wl_img [] =
     Inr [\<lparr> name = ''/w-bin'', actions = [MakeBin wl_img False], targets = [''/w-bin''],
            file_dep = [], task_dep = [], uptodate = [] \<rparr>,
          \<lparr> name = ''/w.img'', actions = [MakeImage wl_img], targets = [''/w.img''],
            file_dep = [''/base.img''], task_dep = [''/base.img''], uptodate = [] \<rparr>]"
  by (simp add: addDep_def Let_def bin_task_def img_task_def opt_list_def run_spec_path_def
        wl_img_def wl_meta_def)

subsection \<open>The initramfs binary node\<close>

text \<open>
  C3. A task appended by \<open>addDep\<close> whose action is \<open>makeBin\<close> with \<open>initramfs=True\<close> exists only
  if the initramfs flag is set (the key is present) and the descriptor has an image path; its file dependencies
  are the image path and the kernel configuration (if present), and its only task
  dependency is the image path, which is the name of the image task appended with it.
\<close>

theorem addDep_initramfs_node:
  assumes "addDep E c ws = Inr (ws @ new)" and "t \<in> set new"
    and "actions t = [MakeBin c True]"
  shows "initramfs c \<and>
         (\<exists>i. img c = Some i \<and> file_dep t = [i] @ opt_list (linux_config c)
               \<and> task_dep t = [i]
               \<and> (\<exists>n \<in> set new. actions n = [MakeImage c] \<and> name n = i))"
  using assms
  by (auto simp: addDep_def Let_def bin_task_def initramfs_task_def img_task_def
           split: if_splits option.splits)

theorem addDep_initramfs_node_witness:
  "addDep env0 wl_full [] =
     Inr ([] @ [bin_task wl_full, initramfs_task wl_full ''/w.img'',
                img_task env0 wl_full ''/w.img''])
   \<and> initramfs_task wl_full ''/w.img''
       \<in> set [bin_task wl_full, initramfs_task wl_full ''/w.img'',
               img_task env0 wl_full ''/w.img'']
   \<and> actions (initramfs_task wl_full ''/w.img'') = [MakeBin wl_full True]
   \<and> initramfs wl_full
   \<and> (\<exists>i. img wl_full = Some i
            \<and> file_dep (initramfs_task wl_full ''/w.img'') = [i] @ opt_list (linux_config wl_full)
            \<and> task_dep (initramfs_task wl_full ''/w.img'') = [i]
            \<and> (\<exists>n \<in> set [bin_task wl_full, initramfs_task wl_full ''/w.img'',
                          img_task env0 wl_full ''/w.img''].
                   actions n = [MakeImage wl_full] \<and> name n = i))"
proof -
  have a: "addDep env0 wl_full [] =
     Inr ([] @ [bin_task wl_full, initramfs_task wl_full ''/w.img'',
                img_task env0 wl_full ''/w.img''])"
    by (simp add: addDep_def Let_def wl_full_def wl_img_def wl_meta_def)
  have b: "initramfs_task wl_full ''/w.img''
       \<in> set [bin_task wl_full, initramfs_task wl_full ''/w.img'',
               img_task env0 wl_full ''/w.img'']"
    by simp
  have c: "actions (initramfs_task wl_full ''/w.img'') = [MakeBin wl_full True]"
    by (simp add: initramfs_task_def)
  show ?thesis
    using addDep_initramfs_node [OF a b c] a b c by blast
qed

subsection \<open>A workload that cannot be built\<close>




section \<open>Properties of launching\<close>

text \<open>
  C10. Without an image path \<open>launchSpike\<close> runs \<open>spike\<close> on the binary path with the suffix
  \<open>-initramfs\<close>, whatever the initramfs argument; its own \<open>ValueError\<close> is raised exactly when
  an image path is present and the argument is false.
\<close>

theorem launchSpike_without_image:
  "(img c = None \<longrightarrow>
      launchSpike E c ini w
        = ext E (CheckCall [''spike'', ''-p4'', ''-m4096'', bin c @ ''-initramfs'']) w)
   \<and> ((\<exists>m. fst (launchSpike E c ini w) = Some (ValueError m))
        \<longleftrightarrow> (img c \<noteq> None \<and> \<not> ini))"
  by (auto simp: launchSpike_def spike_cmd_def ext_def raise_def)

theorem launchSpike_without_image_witness:
  "img wl_meta = None
   \<and> launchSpike env0 wl_meta False world0
       = (None, world0\<lparr>trace := [CheckCall [''spike'', ''-p4'', ''-m4096'',
                                               ''/w-bin-initramfs'']]\<rparr>)"
proof -
  have h: "img wl_meta = None" and b: "bin wl_meta = ''/w-bin''"
    by (simp_all add: wl_meta_def)
  have "launchSpike env0 wl_meta False world0
         = ext env0 (CheckCall [''spike'', ''-p4'', ''-m4096'', bin wl_meta @ ''-initramfs''])
             world0"
    using launchSpike_without_image [of wl_meta env0 False world0] h by blast
  then show ?thesis using h b by (simp add: ext_def env0_def effect_def world0_def)
qed

section \<open>Properties of the procedures\<close>

subsection \<open>The combinators\<close>

lemma seq_None: "seq f g w = (None, w') \<longleftrightarrow> (\<exists>w1. f w = (None, w1) \<and> g w1 = (None, w'))"
  by (auto simp: seq_def split: prod.splits option.splits)

lemma seq_post:
  assumes "fst (seq f g w) = None" and "\<And>w1. fst (g w1) = None \<Longrightarrow> Q (snd (g w1))"
  shows "Q (snd (seq f g w))"
  using assms by (auto simp: seq_def split: prod.splits option.splits)

lemma ext_last: "last (trace (snd (ext E ev w))) = ev"
  by (cases ev) (simp_all add: ext_def effect_def split: option.splits)

lemma ext_trace: "trace (snd (ext E ev w)) = trace w @ [ev]"
  by (cases ev) (simp_all add: ext_def effect_def split: option.splits)

lemma nve_ext: "no_value_error (ext E ev)"
  by (simp add: no_value_error_def ext_def)

lemma nve_emit: "no_value_error (emit ev)"
  by (simp add: no_value_error_def emit_def)

lemma nve_seq: "no_value_error f \<Longrightarrow> no_value_error g \<Longrightarrow> no_value_error (seq f g)"
  unfolding no_value_error_def seq_def
  by (auto split: prod.splits option.splits) (metis fst_conv)+

lemma nve_try_finally:
  "no_value_error f \<Longrightarrow> no_value_error g \<Longrightarrow> no_value_error (try_finally f g)"
  unfolding no_value_error_def try_finally_def
  by (auto split: prod.splits option.splits) (metis fst_conv)+

lemma nve_with_img: "(\<And>i. no_value_error (f i)) \<Longrightarrow> no_value_error (with_img c f)"
  by (auto simp: no_value_error_def with_img_def raise_def split: option.splits)

lemma nve_build_initramfs: "no_value_error (build_initramfs E c l)"
proof -
  have "\<And>t. no_value_error
          (seq (ext E (TempCreate t))
          (try_finally
             (with_img c (\<lambda>i.
                seq (ext E (ToCpio i t))
               (seq (ext E (ConvertInitramfsConfig l t))
               (seq (ext E (Run [''make'', ''ARCH=riscv'', ''olddefconfig''] (linux_dir E)))
                    (make_vmlinux E)))))
             (emit (TempClose t))))"
    by (intro nve_seq nve_try_finally nve_with_img nve_ext nve_emit)
       (simp_all add: make_vmlinux_def nve_ext)
  then show ?thesis
    unfolding no_value_error_def build_initramfs_def Let_def by blast
qed

lemma nve_ensure: "no_value_error (ensure_pk_build E)"
  by (simp add: no_value_error_def ensure_pk_build_def ext_def)

subsection \<open>makeBin\<close>

lemma emit_ok: "emit ev w = (r, w') \<longleftrightarrow> (r = None \<and> w' = w\<lparr>trace := trace w @ [ev]\<rparr>)"
  by (auto simp: emit_def)

lemma require_ok: "require_exists E p e w = (None, w') \<Longrightarrow> w' = w"
  by (simp add: require_exists_def split: if_splits)

lemma ext_ok: "ext E ev w = (None, w') \<Longrightarrow> trace w' = trace w @ [ev]"
  using ext_trace [of E ev w] by simp

lemma try_finally_None:
  "try_finally f g w = (None, w') \<longleftrightarrow> (\<exists>w1. f w = (None, w1) \<and> g w1 = (None, w'))"
  by (auto simp: try_finally_def split: prod.splits option.splits)

lemma make_vmlinux_ok:
  "make_vmlinux E w = (None, w') \<Longrightarrow>
     trace w' = trace w @ [Run [''make'', ''ARCH=riscv'', ''vmlinux'', jlevel E] (linux_dir E)]"
  unfolding make_vmlinux_def by (rule ext_ok)

lemma build_initramfs_ok:
  assumes "build_initramfs E c cfg w = (None, w')"
  shows "\<exists>i. img c = Some i \<and>
           trace w' = trace w @
             [TempCreate (tmp_name E (trace w)), ToCpio i (tmp_name E (trace w)),
              ConvertInitramfsConfig cfg (tmp_name E (trace w)),
              Run [''make'', ''ARCH=riscv'', ''olddefconfig''] (linux_dir E),
              Run [''make'', ''ARCH=riscv'', ''vmlinux'', jlevel E] (linux_dir E),
              TempClose (tmp_name E (trace w))]"
proof -
  let ?t = "tmp_name E (trace w)"
  from assms obtain w1 w2 where
    1: "ext E (TempCreate ?t) w = (None, w1)" and
    2: "with_img c (\<lambda>i.
                seq (ext E (ToCpio i ?t))
               (seq (ext E (ConvertInitramfsConfig cfg ?t))
               (seq (ext E (Run [''make'', ''ARCH=riscv'', ''olddefconfig''] (linux_dir E)))
                    (make_vmlinux E)))) w1 = (None, w2)" and
    3: "emit (TempClose ?t) w2 = (None, w')"
    unfolding build_initramfs_def Let_def seq_None try_finally_None by blast
  from 2 obtain i where i: "img c = Some i"
    by (cases "img c") (simp_all add: with_img_def raise_def)
  with 2 obtain w3 w4 w5 where
    4: "ext E (ToCpio i ?t) w1 = (None, w3)" and
    5: "ext E (ConvertInitramfsConfig cfg ?t) w3 = (None, w4)" and
    6: "ext E (Run [''make'', ''ARCH=riscv'', ''olddefconfig''] (linux_dir E)) w4 = (None, w5)" and
    7: "make_vmlinux E w5 = (None, w2)"
    by (auto simp: with_img_def seq_None)
  from 3 have t3: "trace w' = trace w2 @ [TempClose ?t]" by (simp add: emit_ok)
  from ext_ok [OF 1] ext_ok [OF 4] ext_ok [OF 5] ext_ok [OF 6] make_vmlinux_ok [OF 7] t3 i
  show ?thesis by simp
qed

lemma ensure_pk_build_ok:
  "ensure_pk_build E w = (None, w') \<Longrightarrow>
     trace w' = trace w @ (if path_exists E (trace w) ''riscv-pk/build'' then []
                           else [Mkdir ''riscv-pk/build''])"
  by (auto simp: ensure_pk_build_def dest: ext_ok split: if_splits)

lemma makeBin_build_steps:
  assumes "linux_config c = Some lc" and "makeBin E c ini w = (None, w')"
  shows "(let cfg = path_join (linux_dir E) ''.config'';
              t = tmp_name E (trace w @ [Copy lc cfg]);
              vmlinux = Run [''make'', ''ARCH=riscv'', ''vmlinux'', jlevel E] (linux_dir E);
              kernel =
                (if ini
                 then (case img c of
                         None \<Rightarrow> []
                       | Some i \<Rightarrow>
                           [TempCreate t, ToCpio i t, ConvertInitramfsConfig cfg t,
                            Run [''make'', ''ARCH=riscv'', ''olddefconfig''] (linux_dir E),
                            vmlinux, TempClose t])
                 else [vmlinux]);
              mkdir =
                (if path_exists E (trace w @ [Copy lc cfg] @ kernel) ''riscv-pk/build''
                 then [] else [Mkdir ''riscv-pk/build''])
          in (ini \<longrightarrow> img c \<noteq> None)
             \<and> trace w' = trace w @ [Copy lc cfg] @ kernel @ mkdir @
                 [Run [''../configure'', ''--host=riscv64-unknown-elf'',
                       ''--with-payload=../../riscv-linux/vmlinux''] ''riscv-pk/build'',
                  Run [''make'', jlevel E] ''riscv-pk/build'',
                  Copy ''riscv-pk/build/bbl'' (if ini then bin c @ ''-initramfs'' else bin c)])"
proof -
  let ?cfg = "path_join (linux_dir E) ''.config''"
  from assms obtain w1 w2 w3 w4 w5 where
    1: "ext E (Copy lc ?cfg) w = (None, w1)" and
    2: "(if ini then build_initramfs E c ?cfg else make_vmlinux E) w1 = (None, w2)" and
    3: "ensure_pk_build E w2 = (None, w3)" and
    4: "ext E (Run [''../configure'', ''--host=riscv64-unknown-elf'',
                    ''--with-payload=../../riscv-linux/vmlinux''] ''riscv-pk/build'') w3
          = (None, w4)" and
    5: "ext E (Run [''make'', jlevel E] ''riscv-pk/build'') w4 = (None, w5)" and
    6: "ext E (Copy ''riscv-pk/build/bbl'' (if ini then bin c @ ''-initramfs'' else bin c)) w5
          = (None, w')"
    by (auto simp: makeBin_def seq_None)
  note t1 = ext_ok [OF 1]
  note t3 = ensure_pk_build_ok [OF 3]
  note t4 = ext_ok [OF 4] and t5 = ext_ok [OF 5] and t6 = ext_ok [OF 6]
  show ?thesis
  proof (cases ini)
    case True
    with 2 have "build_initramfs E c ?cfg w1 = (None, w2)" by simp
    from build_initramfs_ok [OF this] obtain i where "img c = Some i" and
      "trace w2 = trace w1 @
             [TempCreate (tmp_name E (trace w1)), ToCpio i (tmp_name E (trace w1)),
              ConvertInitramfsConfig ?cfg (tmp_name E (trace w1)),
              Run [''make'', ''ARCH=riscv'', ''olddefconfig''] (linux_dir E),
              Run [''make'', ''ARCH=riscv'', ''vmlinux'', jlevel E] (linux_dir E),
              TempClose (tmp_name E (trace w1))]" by blast
    with True t1 t3 t4 t5 t6 show ?thesis by (simp add: Let_def)
  next
    case False
    with 2 have "make_vmlinux E w1 = (None, w2)" by simp
    from make_vmlinux_ok [OF this] False t1 t3 t4 t5 t6 show ?thesis by (simp add: Let_def)
  qed
qed


text \<open>
  C7, as the code has it. \<open>makeBin\<close> raises its \<open>ValueError\<close> exactly when there is no kernel
  configuration and the distro is not \<open>bare\<close>, and then it has done nothing: no binary is
  produced. Without a kernel configuration on \<open>bare\<close> it returns without doing anything.
  With a kernel configuration it never raises that error, whatever the distro, and when it
  returns it has built: it has copied the kernel configuration, made the kernel (through
  the initramfs archive of the image for the initramfs variant), created the boot loader's
  build directory if it was missing, configured and made the boot loader, and last copied
  it to the binary path (with the suffix \<open>-initramfs\<close> for the initramfs variant), in this
  order and with no other action.
\<close>

theorem makeBin_raises_iff_unbuildable:
  "(linux_config c = None \<and> distro c \<noteq> ''bare''
      \<longrightarrow> makeBin E c ini w = (Some (ValueError no_linux_config_msg), w))
   \<and> (linux_config c = None \<and> distro c = ''bare'' \<longrightarrow> makeBin E c ini w = (None, w))
   \<and> (linux_config c \<noteq> None \<longrightarrow> (\<forall>m. fst (makeBin E c ini w) \<noteq> Some (ValueError m)))
   \<and> (linux_config c \<noteq> None \<and> fst (makeBin E c ini w) = None
      \<longrightarrow> last (trace (snd (makeBin E c ini w)))
          = Copy ''riscv-pk/build/bbl'' (if ini then bin c @ ''-initramfs'' else bin c))
   \<and> (linux_config c = Some lc \<and> fst (makeBin E c ini w) = None
      \<longrightarrow> (let cfg = path_join (linux_dir E) ''.config'';
              t = tmp_name E (trace w @ [Copy lc cfg]);
              vmlinux = Run [''make'', ''ARCH=riscv'', ''vmlinux'', jlevel E] (linux_dir E);
              kernel =
                (if ini
                 then (case img c of
                         None \<Rightarrow> []
                       | Some i \<Rightarrow>
                           [TempCreate t, ToCpio i t, ConvertInitramfsConfig cfg t,
                            Run [''make'', ''ARCH=riscv'', ''olddefconfig''] (linux_dir E),
                            vmlinux, TempClose t])
                 else [vmlinux]);
              mkdir =
                (if path_exists E (trace w @ [Copy lc cfg] @ kernel) ''riscv-pk/build''
                 then [] else [Mkdir ''riscv-pk/build''])
          in (ini \<longrightarrow> img c \<noteq> None)
             \<and> trace (snd (makeBin E c ini w)) = trace w @ [Copy lc cfg] @ kernel @ mkdir @
                 [Run [''../configure'', ''--host=riscv64-unknown-elf'',
                       ''--with-payload=../../riscv-linux/vmlinux''] ''riscv-pk/build'',
                  Run [''make'', jlevel E] ''riscv-pk/build'',
                  Copy ''riscv-pk/build/bbl'' (if ini then bin c @ ''-initramfs'' else bin c)]))"
proof (intro conjI impI)
  assume "linux_config c = None \<and> distro c \<noteq> ''bare''"
  then show "makeBin E c ini w = (Some (ValueError no_linux_config_msg), w)"
    by (simp add: makeBin_def raise_def)
next
  assume "linux_config c = None \<and> distro c = ''bare''"
  then show "makeBin E c ini w = (None, w)"
    by (simp add: makeBin_def skip_def)
next
  assume "linux_config c \<noteq> None"
  then obtain lc where lc: "linux_config c = Some lc" by auto
  have "no_value_error (makeBin E c ini)"
    unfolding makeBin_def lc option.case
    by (intro nve_seq nve_ext nve_ensure)
       (simp add: nve_build_initramfs make_vmlinux_def nve_ext)
  then show "\<forall>m. fst (makeBin E c ini w) \<noteq> Some (ValueError m)"
    by (simp add: no_value_error_def)
next
  assume a: "linux_config c \<noteq> None \<and> fst (makeBin E c ini w) = None"
  then obtain lc where lc: "linux_config c = Some lc" by auto
  from a have ok: "fst (makeBin E c ini w) = None" by simp
  show "last (trace (snd (makeBin E c ini w)))
          = Copy ''riscv-pk/build/bbl'' (if ini then bin c @ ''-initramfs'' else bin c)"
    using ok unfolding makeBin_def lc option.case
    by (intro seq_post [where Q = "\<lambda>w'. last (trace w') = Copy ''riscv-pk/build/bbl'' (if ini then bin c @ ''-initramfs'' else bin c)"])
       (simp_all add: ext_last)
next
  assume a: "linux_config c = Some lc \<and> fst (makeBin E c ini w) = None"
  then have m: "makeBin E c ini w = (None, snd (makeBin E c ini w))"
    by (metis prod.collapse)
  from a makeBin_build_steps [OF _ m, of lc]
  show "(let cfg = path_join (linux_dir E) ''.config'';
              t = tmp_name E (trace w @ [Copy lc cfg]);
              vmlinux = Run [''make'', ''ARCH=riscv'', ''vmlinux'', jlevel E] (linux_dir E);
              kernel =
                (if ini
                 then (case img c of
                         None \<Rightarrow> []
                       | Some i \<Rightarrow>
                           [TempCreate t, ToCpio i t, ConvertInitramfsConfig cfg t,
                            Run [''make'', ''ARCH=riscv'', ''olddefconfig''] (linux_dir E),
                            vmlinux, TempClose t])
                 else [vmlinux]);
              mkdir =
                (if path_exists E (trace w @ [Copy lc cfg] @ kernel) ''riscv-pk/build''
                 then [] else [Mkdir ''riscv-pk/build''])
          in (ini \<longrightarrow> img c \<noteq> None)
             \<and> trace (snd (makeBin E c ini w)) = trace w @ [Copy lc cfg] @ kernel @ mkdir @
                 [Run [''../configure'', ''--host=riscv64-unknown-elf'',
                       ''--with-payload=../../riscv-linux/vmlinux''] ''riscv-pk/build'',
                  Run [''make'', jlevel E] ''riscv-pk/build'',
                  Copy ''riscv-pk/build/bbl'' (if ini then bin c @ ''-initramfs'' else bin c)])"
    by blast
qed

theorem makeBin_raises_iff_unbuildable_witness:
  "linux_config wl_meta = None \<and> distro wl_meta \<noteq> ''bare''
   \<and> makeBin env0 wl_meta False world0 = (Some (ValueError no_linux_config_msg), world0)
   \<and> linux_config wl_full = Some ''/w.kcfg''
   \<and> fst (makeBin env0 wl_full True world0) = None
   \<and> trace (snd (makeBin env0 wl_full True world0)) =
       [Copy ''/w.kcfg'' ''riscv-linux/.config'',
        TempCreate ''/tmp/initramfs.cpio'',
        ToCpio ''/w.img'' ''/tmp/initramfs.cpio'',
        ConvertInitramfsConfig ''riscv-linux/.config'' ''/tmp/initramfs.cpio'',
        Run [''make'', ''ARCH=riscv'', ''olddefconfig''] ''riscv-linux'',
        Run [''make'', ''ARCH=riscv'', ''vmlinux'', ''-j4''] ''riscv-linux'',
        TempClose ''/tmp/initramfs.cpio'',
        Run [''../configure'', ''--host=riscv64-unknown-elf'',
             ''--with-payload=../../riscv-linux/vmlinux''] ''riscv-pk/build'',
        Run [''make'', ''-j4''] ''riscv-pk/build'',
        Copy ''riscv-pk/build/bbl'' ''/w-bin-initramfs'']"
proof -
  have 1: "linux_config wl_meta = None \<and> distro wl_meta \<noteq> ''bare''
      \<and> makeBin env0 wl_meta False world0 = (Some (ValueError no_linux_config_msg), world0)"
    using makeBin_raises_iff_unbuildable
            [where c = wl_meta and ini = False and E = env0 and w = world0]
    by (simp add: wl_meta_def)
  have l: "linux_config wl_full = Some ''/w.kcfg''" and i: "img wl_full = Some ''/w.img''"
    and b: "bin wl_full = ''/w-bin''"
    by (simp_all add: wl_full_def wl_img_def wl_meta_def)
  have ok: "fst (makeBin env0 wl_full True world0) = None"
    by (simp add: makeBin_def build_initramfs_def make_vmlinux_def ensure_pk_build_def
          with_img_def seq_def try_finally_def ext_def emit_def effect_def
          l i env0_def world0_def Let_def)
  have "trace (snd (makeBin env0 wl_full True world0)) =
       [Copy ''/w.kcfg'' ''riscv-linux/.config'',
        TempCreate ''/tmp/initramfs.cpio'',
        ToCpio ''/w.img'' ''/tmp/initramfs.cpio'',
        ConvertInitramfsConfig ''riscv-linux/.config'' ''/tmp/initramfs.cpio'',
        Run [''make'', ''ARCH=riscv'', ''olddefconfig''] ''riscv-linux'',
        Run [''make'', ''ARCH=riscv'', ''vmlinux'', ''-j4''] ''riscv-linux'',
        TempClose ''/tmp/initramfs.cpio'',
        Run [''../configure'', ''--host=riscv64-unknown-elf'',
             ''--with-payload=../../riscv-linux/vmlinux''] ''riscv-pk/build'',
        Run [''make'', ''-j4''] ''riscv-pk/build'',
        Copy ''riscv-pk/build/bbl'' ''/w-bin-initramfs'']"
    using makeBin_raises_iff_unbuildable
            [where c = wl_full and ini = True and E = env0 and w = world0
               and lc = "''/w.kcfg''"] l ok i b
    by (simp add: Let_def env0_def world0_def path_join_def)
  with 1 l ok show ?thesis by blast
qed

text \<open>C7 as stated fails where both conditions hold: with a kernel configuration on the
  \<open>bare\<close> distro \<open>makeBin\<close> returns and has produced the binary.\<close>

theorem makeBin_builds_linux_on_bare:
  "linux_config wl_bare_linux = Some ''/w.kcfg'' \<and> distro wl_bare_linux = ''bare''
   \<and> fst (makeBin env0 wl_bare_linux False world0) = None
   \<and> last (trace (snd (makeBin env0 wl_bare_linux False world0)))
       = Copy ''riscv-pk/build/bbl'' ''/w-bin''"
  by (simp add: makeBin_def wl_bare_linux_def wl_meta_def seq_def ext_def env0_def
        make_vmlinux_def ensure_pk_build_def effect_def world0_def path_join_def)

section \<open>Properties of applyFiles\<close>

lemma copy_files_trace:
  "\<exists>es. trace (snd (copy_files E fl w)) = trace w @ es
        \<and> (\<forall>e \<in> set es. \<exists>s d. e = Rsync s d)
        \<and> mounted (snd (copy_files E fl w)) = mounted w"
proof (induction fl arbitrary: w)
  case Nil
  then show ?case by simp
next
  case (Cons f fl)
  let ?ev = "Rsync (src f) (normpath E (mnt E @ dst f))"
  show ?case
  proof (cases "succeeds E (trace w) ?ev")
    case True
    let ?w1 = "effect E ?ev (w\<lparr>trace := trace w @ [?ev]\<rparr>)"
    have w1: "trace ?w1 = trace w @ [?ev]" "mounted ?w1 = mounted w"
      by (simp_all add: effect_def split: option.splits)
    have step: "copy_files E (f # fl) w = copy_files E fl ?w1"
      using True by (simp add: seq_def ext_def)
    from Cons.IH [of ?w1] obtain es where
      "trace (snd (copy_files E fl ?w1)) = trace ?w1 @ es"
      "\<forall>e \<in> set es. \<exists>s d. e = Rsync s d"
      "mounted (snd (copy_files E fl ?w1)) = mounted ?w1" by blast
    then have "trace (snd (copy_files E (f # fl) w)) = trace w @ (?ev # es)
        \<and> (\<forall>e \<in> set (?ev # es). \<exists>s d. e = Rsync s d)
        \<and> mounted (snd (copy_files E (f # fl) w)) = mounted w"
      using w1 step by simp
    then show ?thesis by blast
  next
    case False
    then have "trace (snd (copy_files E (f # fl) w)) = trace w @ [?ev]
        \<and> (\<forall>e \<in> set [?ev]. \<exists>s d. e = Rsync s d)
        \<and> mounted (snd (copy_files E (f # fl) w)) = mounted w"
      by (simp add: seq_def ext_def)
    then show ?thesis by blast
  qed
qed

text \<open>
  C6, as the code has it. If the mount succeeds, then however the copies go (none, all, or
  up to the first that fails) the last thing \<open>applyFiles\<close> does is run the unmount command,
  whether it returns or raises; nothing but copies lies between the mount and the unmount;
  and the mount point is free afterwards whenever that unmount command succeeds.
\<close>

theorem applyFiles_always_unmounts:
  assumes "succeeds E (trace w) (Mount i (mnt E))"
  shows "\<exists>es. trace (snd (applyFiles E i fl w)) = trace w @ Mount i (mnt E) # es @ [Umount (mnt E)]
            \<and> (\<forall>e \<in> set es. \<exists>s d. e = Rsync s d)
            \<and> (succeeds E (trace w @ Mount i (mnt E) # es) (Umount (mnt E))
                 \<longrightarrow> mounted (snd (applyFiles E i fl w)) = None)"
proof -
  let ?w1 = "effect E (Mount i (mnt E)) (w\<lparr>trace := trace w @ [Mount i (mnt E)]\<rparr>)"
  have w1: "trace ?w1 = trace w @ [Mount i (mnt E)]" by (simp add: effect_def)
  obtain r w2 where c: "copy_files E fl ?w1 = (r, w2)" by (cases "copy_files E fl ?w1")
  from copy_files_trace [of E fl ?w1] c obtain es where
    es: "trace w2 = trace ?w1 @ es" "\<forall>e \<in> set es. \<exists>s d. e = Rsync s d" by auto
  have run: "applyFiles E i fl w =
      (case ext E (Umount (mnt E)) w2 of (None, w3) \<Rightarrow> (r, w3) | (Some e, w3) \<Rightarrow> (Some e, w3))"
    using assms c by (simp add: applyFiles_def seq_def ext_def try_finally_def)
  have t: "trace (snd (applyFiles E i fl w)) = trace w2 @ [Umount (mnt E)]"
    unfolding run by (simp add: ext_def effect_def split: prod.splits option.splits)
  have m: "succeeds E (trace w2) (Umount (mnt E)) \<Longrightarrow> mounted (snd (applyFiles E i fl w)) = None"
    unfolding run by (simp add: ext_def effect_def)
  have "trace (snd (applyFiles E i fl w)) = trace w @ Mount i (mnt E) # es @ [Umount (mnt E)]
            \<and> (\<forall>e \<in> set es. \<exists>s d. e = Rsync s d)
            \<and> (succeeds E (trace w @ Mount i (mnt E) # es) (Umount (mnt E))
                 \<longrightarrow> mounted (snd (applyFiles E i fl w)) = None)"
    using t m es w1 by simp
  then show ?thesis by blast
qed

theorem applyFiles_always_unmounts_witness:
  "succeeds env_copy_fails (trace world0) (Mount ''/w.img'' (mnt env_copy_fails))
   \<and> fst (applyFiles env_copy_fails ''/w.img'' [\<lparr>src = ''/one'', dst = ''/etc''\<rparr>] world0)
       = Some (Failed (Rsync ''/one'' ''/mnt/etc''))
   \<and> trace (snd (applyFiles env_copy_fails ''/w.img'' [\<lparr>src = ''/one'', dst = ''/etc''\<rparr>] world0))
       = [Mount ''/w.img'' ''/mnt'', Rsync ''/one'' ''/mnt/etc'', Umount ''/mnt'']
   \<and> mounted (snd (applyFiles env_copy_fails ''/w.img'' [\<lparr>src = ''/one'', dst = ''/etc''\<rparr>] world0))
       = None"
proof -
  have h: "succeeds env_copy_fails (trace world0) (Mount ''/w.img'' (mnt env_copy_fails))"
    by (simp add: env_copy_fails_def env0_def)
  have u: "\<And>h. succeeds env_copy_fails h (Umount (mnt env_copy_fails))"
    by (simp add: env_copy_fails_def env0_def)
  have m: "mounted (snd (applyFiles env_copy_fails ''/w.img'' [\<lparr>src = ''/one'', dst = ''/etc''\<rparr>] world0)) = None"
    using applyFiles_always_unmounts [OF h, of "[\<lparr>src = ''/one'', dst = ''/etc''\<rparr>]"] u by blast
  have n: "posix_normpath ''/mnt/etc'' = ''/mnt/etc''"
    by (simp add: posix_normpath_def Let_def)
  have e: "applyFiles env_copy_fails ''/w.img'' [\<lparr>src = ''/one'', dst = ''/etc''\<rparr>] world0
     = (Some (Failed (Rsync ''/one'' ''/mnt/etc'')),
        world0\<lparr>trace := [Mount ''/w.img'' ''/mnt'', Rsync ''/one'' ''/mnt/etc'', Umount ''/mnt''],
               mounted := None\<rparr>)"
    by (simp add: applyFiles_def seq_def ext_def try_finally_def env_copy_fails_def env0_def
          effect_def world0_def n)
  show ?thesis using h m e by simp
qed

text \<open>C6 as stated fails when the unmount command itself fails: the error propagates and the
  image stays mounted.\<close>

theorem applyFiles_failed_umount_leaves_mount:
  "succeeds env_umount_fails (trace world0) (Mount ''/w.img'' (mnt env_umount_fails))
   \<and> fst (applyFiles env_umount_fails ''/w.img'' [\<lparr>src = ''/one'', dst = ''/etc''\<rparr>] world0)
       = Some (Failed (Umount ''/mnt''))
   \<and> mounted (snd (applyFiles env_umount_fails ''/w.img'' [\<lparr>src = ''/one'', dst = ''/etc''\<rparr>]
                      world0))
       = Some ''/w.img''"
  by (simp add: applyFiles_def seq_def ext_def try_finally_def env_umount_fails_def env0_def
        effect_def world0_def)

section \<open>Properties of the handlers and of main\<close>

lemma handleBuild_emits:
  "trace (snd (handleBuild E a cfgs w)) = trace w
   \<or> (\<exists>g t. buildDepGraph E cfgs = Inr g
            \<and> trace (snd (handleBuild E a cfgs w)) = trace w @ [DoitRun g t])"
  by (auto simp: handleBuild_def raise_def emit_def Let_def
           split: sum.splits option.splits)

lemma trunc_cfg_of [simp]: "workload.truncate (cfg_of wl js) = wl"
  by (simp add: cfg_of_def workload.defs config.defs)

lemma sel_cfg_of [simp]:
  "jobs (cfg_of wl js) = js" "img (cfg_of wl js) = img wl" "bin (cfg_of wl js) = bin wl"
  "initramfs (cfg_of wl js) = initramfs wl"
  by (simp_all add: cfg_of_def workload.defs config.defs)

lemma graph0_built: "buildDepGraph env0 cfgs0 = Inr graph0"
  by (simp add: buildDepGraph_def non_distro_keys_def cfgs0_def graph0_def env0_def
        addDep_def Let_def wl_base_def wl_job_def wl_v_def wl_bare_linux_def wl_img_def
        wl_meta_def)

lemma cfg_name_cfg_of [simp]: "cfg_name (cfg_of wl js) = cfg_name wl"
  by (simp add: cfg_of_def workload.defs config.defs)

lemma graph0_rev_built: "buildDepGraph env_rev cfgs0 = Inr graph0_rev"
  by (simp add: buildDepGraph_def non_distro_keys_def cfgs0_def graph0_rev_def env_rev_def
        env0_def addDep_def Let_def wl_base_def wl_job_def wl_v_def wl_bare_linux_def
        wl_img_def wl_meta_def img_task_def file_spec_deps_def isdir_def)

subsection \<open>The graph and the request\<close>

lemma addDep_from:
  "addDep E c ws = (case addDep E c [] of Inl e \<Rightarrow> Inl e | Inr new \<Rightarrow> Inr (ws @ new))"
  by (simp add: addDep_def Let_def split: option.splits)

lemma add_jobs_from:
  "add_jobs E js ws = (case add_jobs E js [] of Inl e \<Rightarrow> Inl e | Inr new \<Rightarrow> Inr (ws @ new))"
proof (induction js arbitrary: ws)
  case Nil
  then show ?case by simp
next
  case (Cons j js)
  show ?case
  proof (cases "addDep E j []")
    case (Inl e)
    then show ?thesis using addDep_from [of E j ws] by simp
  next
    case (Inr new)
    then have 1: "addDep E j ws = Inr (ws @ new)" using addDep_from [of E j ws] by simp
    show ?thesis
      using Inr 1 Cons.IH [of "ws @ new"] Cons.IH [of new]
      by (simp split: sum.splits)
  qed
qed

lemma add_configs_Cons:
  "add_configs E cfgs (k # ps) ws =
     (case config_tasks E cfgs k of
        Inl e \<Rightarrow> Inl e
      | Inr new \<Rightarrow> add_configs E cfgs ps (ws @ new))"
proof (cases "map_of cfgs k")
  case None
  then show ?thesis by (simp add: config_tasks_def)
next
  case (Some config)
  show ?thesis
  proof (cases "addDep E (workload.truncate config) []")
    case (Inl e)
    then show ?thesis
      using Some addDep_from [of E "workload.truncate config" ws]
      by (simp add: config_tasks_def)
  next
    case (Inr new)
    then have 1: "addDep E (workload.truncate config) ws = Inr (ws @ new)"
      using addDep_from [of E "workload.truncate config" ws] by simp
    show ?thesis
    proof (cases "jobs config")
      case None
      then show ?thesis using Some Inr 1 by (simp add: config_tasks_def)
    next
      case (Some js)
      then show ?thesis
        using \<open>map_of cfgs k = Some config\<close> Inr 1
          add_jobs_from [of E "map snd js" "ws @ new"] add_jobs_from [of E "map snd js" new]
        by (simp add: config_tasks_def split: sum.splits)
    qed
  qed
qed

lemma add_configs_Inr:
  "add_configs E cfgs ks ws = Inr g \<Longrightarrow>
     g = ws @ concat (map (\<lambda>k. projr (config_tasks E cfgs k)) ks)"
proof (induction ks arbitrary: ws)
  case Nil
  then show ?case by simp
next
  case (Cons k ks)
  from Cons.prems obtain new where n: "config_tasks E cfgs k = Inr new"
    and r: "add_configs E cfgs ks (ws @ new) = Inr g"
    by (auto simp: add_configs_Cons simp del: add_configs.simps split: sum.splits)
  from Cons.IH [OF r] n show ?case by simp
qed

lemma file_spec_deps_fs: "fs E1 = fs E2 \<Longrightarrow> file_spec_deps E1 = file_spec_deps E2"
  by (rule ext) (simp add: file_spec_deps_def isdir_def)

lemma img_task_fs:
  assumes "fs E1 = fs E2"
  shows "img_task E1 = img_task E2"
  unfolding img_task_def file_spec_deps_fs [OF assms] by (rule refl)

lemma addDep_fs:
  assumes "fs E1 = fs E2"
  shows "addDep E1 c ws = addDep E2 c ws"
  unfolding addDep_def img_task_fs [OF assms] by (rule refl)

lemma add_jobs_fs: "fs E1 = fs E2 \<Longrightarrow> add_jobs E1 js ws = add_jobs E2 js ws"
  by (induction js arbitrary: ws) (simp_all add: addDep_fs [of E1 E2] split: sum.splits)

lemma add_configs_fs: "fs E1 = fs E2 \<Longrightarrow> add_configs E1 cfgs ks ws = add_configs E2 cfgs ks ws"
  by (induction ks arbitrary: ws)
     (simp_all add: addDep_fs [of E1 E2] add_jobs_fs [of E1 E2] split: sum.splits option.splits)

lemma mset_concat_map:
  "mset (concat (map f xs)) = (\<Sum>x \<in># mset xs. mset (f x))"
  by (induction xs) simp_all

lemma add_configs_perm:
  assumes "add_configs E cfgs ks1 ws = Inr g1" and "add_configs E cfgs ks2 ws = Inr g2"
    and "mset ks1 = mset ks2"
  shows "mset g1 = mset g2"
  using add_configs_Inr [OF assms(1)] add_configs_Inr [OF assms(2)] assms(3)
  by (simp add: mset_concat_map)

lemma buildDepGraph_same_nodes:
  assumes "distros E1 = distros E2" and "fs E1 = fs E2"
    and "\<And>ks. mset (set_iter E1 ks) = mset ks" and "\<And>ks. mset (set_iter E2 ks) = mset ks"
    and "buildDepGraph E1 cfgs = Inr g1" and "buildDepGraph E2 cfgs = Inr g2"
  shows "mset g1 = mset g2 \<and> (set_iter E1 = set_iter E2 \<longrightarrow> g1 = g2)"
proof -
  from assms(5) obtain ws where ws: "add_distros cfgs (distros E1) [] = Inr ws"
    and 1: "add_configs E1 cfgs (non_distro_keys E1 cfgs) ws = Inr g1"
    by (auto simp: buildDepGraph_def split: sum.splits)
  from assms(6) ws assms(1) have
    2: "add_configs E2 cfgs (non_distro_keys E2 cfgs) ws = Inr g2"
    by (auto simp: buildDepGraph_def split: sum.splits)
  from 2 have 3: "add_configs E1 cfgs (non_distro_keys E2 cfgs) ws = Inr g2"
    using add_configs_fs [OF assms(2)] by simp
  have "mset (non_distro_keys E1 cfgs) = mset (non_distro_keys E2 cfgs)"
    using assms(1,3,4) by (simp add: non_distro_keys_def)
  from add_configs_perm [OF 1 3 this] have m: "mset g1 = mset g2" .
  have "set_iter E1 = set_iter E2 \<Longrightarrow> g1 = g2"
  proof -
    assume "set_iter E1 = set_iter E2"
    with assms(1) have "non_distro_keys E1 cfgs = non_distro_keys E2 cfgs"
      by (simp add: non_distro_keys_def)
    with 1 3 show "g1 = g2" by simp
  qed
  with m show ?thesis by blast
qed

lemma handleBuild_emits2:
  assumes "trace (snd (handleBuild E a cfgs w)) = trace w @ es" and "DoitRun g t \<in> set es"
  shows "buildDepGraph E cfgs = Inr g"
  using handleBuild_emits [of E a cfgs w] assms by auto

lemma launch_on_emits:
  assumes "trace (snd (launch_on E a c w)) = trace w @ es"
  shows "DoitRun g t \<notin> set es"
  using assms
  by (auto simp: launch_on_def launchSpike_def launchQemu_def raise_def ext_trace
           split: if_splits)

lemma handleLaunch_emits:
  assumes "trace (snd (handleLaunch E a cfgs w)) = trace w @ es"
  shows "DoitRun g t \<notin> set es"
proof (cases "map_of cfgs (config_file a)")
  case None
  with assms show ?thesis by (simp add: handleLaunch_def raise_def)
next
  case (Some baseConfig)
  show ?thesis
  proof (cases "launch_config a baseConfig")
    case (Inl e)
    with Some assms show ?thesis by (simp add: handleLaunch_def raise_def)
  next
    case (Inr c)
    with Some assms have "trace (snd (launch_on E a c w)) = trace w @ es"
      by (simp add: handleLaunch_def)
    then show ?thesis by (rule launch_on_emits)
  qed
qed

lemma call_func_emits:
  assumes "trace (snd (call_func E f a cfgs w)) = trace w @ es" and "DoitRun g t \<in> set es"
  shows "buildDepGraph E cfgs = Inr g"
proof (cases f)
  case Build
  with assms show ?thesis by (auto simp: call_func_def dest: handleBuild_emits2)
next
  case Launch
  with assms handleLaunch_emits [of E a cfgs w es g t] show ?thesis
    by (simp add: call_func_def)
qed

lemma main_emits:
  assumes "trace (snd (main E a cfgs w)) = trace w @ es" and "DoitRun g t \<in> set es"
    and "\<not> arg_initramfs a"
  shows "buildDepGraph E cfgs = Inr g"
proof (cases "map_of cfgs (config_file a)")
  case None
  with assms show ?thesis by (simp add: main_def raise_def)
next
  case (Some targetCfg)
  show ?thesis
  proof (cases "arg_command a")
    case None
    with Some assms show ?thesis by (simp add: main_def raise_def)
  next
    case (Some f)
    note f = this
    show ?thesis
    proof (cases "job a = Some ''all''")
      case True
      with f \<open>map_of cfgs (config_file a) = Some targetCfg\<close> assms(3)
      have "main E a cfgs w = call_func E f a cfgs w" by (simp add: main_def)
      with assms(1,2) show ?thesis by (auto dest: call_func_emits)
    next
      case False
      show ?thesis
      proof (cases "job a")
        case None
        with False f \<open>map_of cfgs (config_file a) = Some targetCfg\<close> assms
        show ?thesis by (simp add: main_def raise_def)
      next
        case (Some j)
        show ?thesis
        proof (cases "jobs targetCfg")
          case (Some js)
          with False f \<open>job a = Some j\<close> \<open>map_of cfgs (config_file a) = Some targetCfg\<close> assms(3)
          have "main E a cfgs w
                = call_func E f (a\<lparr>job := Some (cfg_name targetCfg @ ''-'' @ j)\<rparr>) cfgs w"
            by (simp add: main_def)
          with assms(1,2) show ?thesis by (auto dest: call_func_emits)
        next
          case None
          let ?w1 = "w\<lparr>trace := trace w @ [Print (no_jobs_msg j), PrintHelp]\<rparr>"
          from None False f \<open>job a = Some j\<close> \<open>map_of cfgs (config_file a) = Some targetCfg\<close>
            assms(3)
          have m: "main E a cfgs w = call_func E f a cfgs ?w1"
            by (simp add: main_def seq_def emit_def)
          obtain es' where es': "trace (snd (call_func E f a cfgs ?w1)) = trace ?w1 @ es'"
            and "es = [Print (no_jobs_msg j), PrintHelp] @ es'"
          proof (cases f)
            case Build
            from handleBuild_emits [of E a cfgs ?w1] assms(1) m Build that show ?thesis
              by (auto simp: call_func_def)
          next
            case Launch
            have "\<exists>x. trace (snd (handleLaunch E a cfgs ?w1)) = trace ?w1 @ x"
              by (auto simp: handleLaunch_def launch_on_def launchSpike_def launchQemu_def
                    raise_def ext_trace split: option.splits sum.splits)
            with assms(1) m Launch that show ?thesis
              by (auto simp: call_func_def)
          qed
          with assms(2) have "DoitRun g t \<in> set es'" by simp
          with es' show ?thesis by (rule call_func_emits)
        qed
      qed
    qed
  qed
qed

text \<open>
  C8, as the code has it. Over the same configurations, any two requests without the
  initramfs flag (any target file, any job, either command) hand the executor the graph
  that \<open>buildDepGraph\<close> builds from the configurations alone: the same tasks, also across
  runs that iterate the set of configuration keys in different orders, and the same list
  of tasks when the order is the same.
\<close>

theorem main_graph_independent_of_request:
  assumes "distros E1 = distros E2" and "fs E1 = fs E2"
    and "\<And>ks. mset (set_iter E1 ks) = mset ks" and "\<And>ks. mset (set_iter E2 ks) = mset ks"
    and "\<not> arg_initramfs a1" and "\<not> arg_initramfs a2"
    and "trace (snd (main E1 a1 cfgs w1)) = trace w1 @ es1" and "DoitRun g1 t1 \<in> set es1"
    and "trace (snd (main E2 a2 cfgs w2)) = trace w2 @ es2" and "DoitRun g2 t2 \<in> set es2"
  shows "buildDepGraph E1 cfgs = Inr g1 \<and> buildDepGraph E2 cfgs = Inr g2
         \<and> mset g1 = mset g2 \<and> (set_iter E1 = set_iter E2 \<longrightarrow> g1 = g2)"
proof -
  have 1: "buildDepGraph E1 cfgs = Inr g1"
    using assms(7,8,5) by (rule main_emits)
  have 2: "buildDepGraph E2 cfgs = Inr g2"
    using assms(9,10,6) by (rule main_emits)
  from buildDepGraph_same_nodes [OF assms(1,2,3,4) 1 2] 1 2 show ?thesis by simp
qed

theorem main_graph_independent_of_request_witness:
  "distros env0 = distros env_rev \<and> fs env0 = fs env_rev
   \<and> (\<forall>ks. mset (set_iter env0 ks) = mset ks) \<and> (\<forall>ks. mset (set_iter env_rev ks) = mset ks)
   \<and> \<not> arg_initramfs args_w \<and> \<not> arg_initramfs args_v_j1
   \<and> trace (snd (main env0 args_w cfgs0 world0))
       = trace world0 @ [DoitRun graph0 [''/w-bin'', ''/w.img'']]
   \<and> trace (snd (main env_rev args_v_j1 cfgs0 world0))
       = trace world0 @ [DoitRun graph0_rev [''/v-bin'', ''/j1-bin'', ''/j1.img'']]
   \<and> graph0 \<noteq> graph0_rev
   \<and> mset graph0 = mset graph0_rev"
proof -
  have d: "distros env0 = distros env_rev" and f: "fs env0 = fs env_rev"
    by (simp_all add: env_rev_def)
  have p0: "\<And>ks. mset (set_iter env0 ks) = mset ks" by (simp add: env0_def)
  have p1: "\<And>ks. mset (set_iter env_rev ks) = mset ks" by (simp add: env_rev_def)
  have n0: "\<not> arg_initramfs args_w" and n1: "\<not> arg_initramfs args_v_j1"
    by (simp_all add: args_w_def args_v_j1_def args_v_def)
  have lw: "map_of cfgs0 ''/w.json'' = Some (cfg_of wl_img None)"
    and lv: "map_of cfgs0 ''/v.json'' = Some (cfg_of wl_v (Some [(''v-j1'', wl_job)]))"
    by (simp_all add: cfgs0_def)
  have 1: "trace (snd (main env0 args_w cfgs0 world0))
       = trace world0 @ [DoitRun graph0 [''/w-bin'', ''/w.img'']]"
    by (simp add: main_def call_func_def handleBuild_def graph0_built lw Let_def emit_def
          job_targets_def opt_list_def args_w_def wl_img_def wl_meta_def)
  have 2: "trace (snd (main env_rev args_v_j1 cfgs0 world0))
       = trace world0 @ [DoitRun graph0_rev [''/v-bin'', ''/j1-bin'', ''/j1.img'']]"
    by (simp add: main_def call_func_def handleBuild_def graph0_rev_built lv Let_def emit_def
          job_targets_def opt_list_def args_v_j1_def args_v_def wl_v_def wl_job_def
          wl_bare_linux_def wl_img_def wl_meta_def)
  have ne: "graph0 \<noteq> graph0_rev"
    by (simp add: graph0_def graph0_rev_def bin_task_def wl_img_def wl_v_def wl_bare_linux_def
          wl_meta_def)
  have m1: "DoitRun graph0 [''/w-bin'', ''/w.img'']
              \<in> set [DoitRun graph0 [''/w-bin'', ''/w.img'']]"
    and m2: "DoitRun graph0_rev [''/v-bin'', ''/j1-bin'', ''/j1.img'']
              \<in> set [DoitRun graph0_rev [''/v-bin'', ''/j1-bin'', ''/j1.img'']]"
    by simp_all
  have "mset graph0 = mset graph0_rev"
    using main_graph_independent_of_request [OF d f p0 p1 n0 n1 1 m1 2 m2] by simp
  with d f p0 p1 n0 n1 1 2 ne show ?thesis by blast
qed

text \<open>C8 as stated fails for requests with the initramfs flag: \<open>main\<close> writes the flag into
  the descriptor of the requested target before the graph is built, so \<open>build -i\<close> of
  \<open>/a.json\<close> and of \<open>/b.json\<close> over the same configurations give different graphs.\<close>

theorem initramfs_flag_makes_graph_depend_on_target:
  "arg_initramfs args_a_i \<and> arg_initramfs args_b_i
   \<and> map (map name) (handed_graphs (trace (snd (main env0 args_a_i cfgs_ab world0))))
       = [[''/base.img'', ''/a-bin'', ''/a-bin-initramfs'', ''/a.img'', ''/b-bin'', ''/b.img'']]
   \<and> map (map name) (handed_graphs (trace (snd (main env0 args_b_i cfgs_ab world0))))
       = [[''/base.img'', ''/a-bin'', ''/a.img'', ''/b-bin'', ''/b-bin-initramfs'', ''/b.img'']]"
  by (simp add: main_def call_func_def handleBuild_def buildDepGraph_def non_distro_keys_def
        Let_def emit_def job_targets_def opt_list_def force_initramfs_def store_config_def
        args_a_i_def args_b_i_def cfgs_ab_def env0_def addDep_def bin_task_def
        initramfs_task_def img_task_def distro_task_def world0_def
        wl_a_def wl_b_def wl_base_def wl_img_def wl_meta_def cfg_of_def
        workload.defs config.defs)

subsection \<open>A job requested where there are none\<close>

lemma map_of_store_config:
  "map_of cfgs k = Some c \<Longrightarrow> map_of (store_config cfgs k c') k = Some c'"
  by (induction cfgs) (auto simp: store_config_def split: if_splits)

text \<open>
  C9. When a job other than \<open>all\<close> is named and the target configuration has no jobs,
  \<open>main\<close> prints the message and the help text and goes on: for \<open>build\<close> it hands the graph to
  the executor with the targets of the base workload, for \<open>launch\<close> it launches the base
  workload.
\<close>

theorem main_job_without_jobs:
  assumes "map_of cfgs (config_file a) = Some targetCfg"
    and "jobs targetCfg = None"
    and "arg_command a = Some f"
    and "job a = Some j" and "j \<noteq> ''all''"
  shows "main E a cfgs w =
           (let targetCfg1 = (if arg_initramfs a then force_initramfs targetCfg else targetCfg);
                cfgs1 = (if arg_initramfs a
                         then store_config cfgs (config_file a) targetCfg1 else cfgs);
                w1 = w\<lparr>trace := trace w @ [Print (no_jobs_msg j), PrintHelp]\<rparr>
            in case f of
                 Build \<Rightarrow>
                   (case buildDepGraph E cfgs1 of
                      Inl e \<Rightarrow> (Some e, w1)
                    | Inr loader \<Rightarrow>
                        (None, w1\<lparr>trace := trace w1 @
                           [DoitRun loader
                              ([bin targetCfg1]
                               @ (if initramfs targetCfg1
                                  then [bin targetCfg1 @ ''-initramfs''] else [])
                               @ opt_list (img targetCfg1))]\<rparr>))
               | Launch \<Rightarrow> launch_on E a (workload.truncate targetCfg1) w1)"
proof -
  define targetCfg1 where
    "targetCfg1 = (if arg_initramfs a then force_initramfs targetCfg else targetCfg)"
  define cfgs1 where
    "cfgs1 = (if arg_initramfs a then store_config cfgs (config_file a) targetCfg1 else cfgs)"
  define w1 where "w1 = w\<lparr>trace := trace w @ [Print (no_jobs_msg j), PrintHelp]\<rparr>"
  have j1: "jobs targetCfg1 = None"
    using assms(2) by (simp add: targetCfg1_def force_initramfs_def)
  have l: "map_of cfgs1 (config_file a) = Some targetCfg1"
    using assms(1) by (simp add: cfgs1_def targetCfg1_def map_of_store_config)
  have m: "main E a cfgs w = call_func E f a cfgs1 w1"
    using assms j1
    by (simp add: main_def Let_def seq_def emit_def cfgs1_def targetCfg1_def w1_def)
  have "main E a cfgs w =
           (case f of
              Build \<Rightarrow>
                (case buildDepGraph E cfgs1 of
                   Inl e \<Rightarrow> (Some e, w1)
                 | Inr loader \<Rightarrow>
                     (None, w1\<lparr>trace := trace w1 @
                        [DoitRun loader
                           ([bin targetCfg1]
                            @ (if initramfs targetCfg1
                               then [bin targetCfg1 @ ''-initramfs''] else [])
                            @ opt_list (img targetCfg1))]\<rparr>))
            | Launch \<Rightarrow> launch_on E a (workload.truncate targetCfg1) w1)"
  proof (cases f)
    case Build
    then show ?thesis
      unfolding m using l j1
      by (simp add: call_func_def handleBuild_def Let_def raise_def emit_def job_targets_def
            workload.defs split: sum.splits)
  next
    case Launch
    then show ?thesis
      unfolding m using l j1
      by (simp add: call_func_def handleLaunch_def launch_config_def)
  qed
  then show ?thesis
    unfolding Let_def cfgs1_def w1_def targetCfg1_def .
qed

theorem main_job_without_jobs_witness:
  "map_of cfgs0 (config_file args_w_j1) = Some (cfg_of wl_img None)
   \<and> jobs (cfg_of wl_img None) = None
   \<and> arg_command args_w_j1 = Some Build
   \<and> job args_w_j1 = Some ''j1'' \<and> ''j1'' \<noteq> ''all''
   \<and> main env0 args_w_j1 cfgs0 world0
       = (None, world0\<lparr>trace := [Print (no_jobs_msg ''j1''), PrintHelp,
                                  DoitRun graph0 [''/w-bin'', ''/w.img'']]\<rparr>)"
proof -
  have h: "map_of cfgs0 (config_file args_w_j1) = Some (cfg_of wl_img None)"
    "jobs (cfg_of wl_img None) = None"
    "arg_command args_w_j1 = Some Build"
    "job args_w_j1 = Some ''j1''" "''j1'' \<noteq> ''all''"
    by (simp_all add: cfgs0_def args_w_j1_def args_w_def)
  have f: "\<not> arg_initramfs args_w_j1" by (simp add: args_w_j1_def args_w_def)
  have v: "bin wl_img = ''/w-bin''" "img wl_img = Some ''/w.img''" "\<not> initramfs wl_img"
    by (simp_all add: wl_img_def wl_meta_def)
  from main_job_without_jobs [OF h, of env0 world0] f v graph0_built
  have "main env0 args_w_j1 cfgs0 world0
       = (None, world0\<lparr>trace := [Print (no_jobs_msg ''j1''), PrintHelp,
                                  DoitRun graph0 [''/w-bin'', ''/w.img'']]\<rparr>)"
    by (simp add: Let_def opt_list_def world0_def)
  with h show ?thesis by blast
qed

section \<open>Properties of makeImage\<close>

subsection \<open>What each state adds to the trace\<close>

lemma ae_skip: "all_events A skip"
  by (simp add: all_events_def skip_def)

lemma ae_raise: "all_events A (raise e)"
  by (simp add: all_events_def raise_def)

lemma ae_emit: "A ev \<Longrightarrow> all_events A (emit ev)"
  by (simp add: all_events_def emit_def)

lemma ae_ext: "A ev \<Longrightarrow> all_events A (ext E ev)"
  by (simp add: all_events_def ext_trace)

lemma ae_require: "all_events A (require_exists E p e)"
  by (simp add: all_events_def require_exists_def)

lemma ae_seq:
  assumes "all_events A f" and "all_events A g"
  shows "all_events A (seq f g)"
  unfolding all_events_def
proof
  fix w
  from assms(1) obtain a where a: "trace (snd (f w)) = trace w @ a" "\<forall>e \<in> set a. A e"
    unfolding all_events_def by blast
  show "\<exists>es. trace (snd (seq f g w)) = trace w @ es \<and> (\<forall>e \<in> set es. A e)"
  proof (cases "fst (f w)")
    case None
    then have s: "seq f g w = g (snd (f w))"
      by (cases "f w") (simp add: seq_def)
    from assms(2) obtain b where
      "trace (snd (g (snd (f w)))) = trace (snd (f w)) @ b" "\<forall>e \<in> set b. A e"
      unfolding all_events_def by blast
    with a s have "trace (snd (seq f g w)) = trace w @ (a @ b) \<and> (\<forall>e \<in> set (a @ b). A e)"
      by auto
    then show ?thesis by blast
  next
    case (Some e)
    then have "seq f g w = f w"
      by (cases "f w") (simp add: seq_def)
    with a show ?thesis by auto
  qed
qed

lemma ae_try_finally:
  assumes "all_events A f" and "all_events A g"
  shows "all_events A (try_finally f g)"
  unfolding all_events_def
proof
  fix w
  from assms(1) obtain a where a: "trace (snd (f w)) = trace w @ a" "\<forall>e \<in> set a. A e"
    unfolding all_events_def by blast
  from assms(2) obtain b where
    b: "trace (snd (g (snd (f w)))) = trace (snd (f w)) @ b" "\<forall>e \<in> set b. A e"
    unfolding all_events_def by blast
  have "snd (try_finally f g w) = snd (g (snd (f w)))"
    by (cases "f w"; cases "g (snd (f w))")
       (simp add: try_finally_def split: option.splits)
  with a b have "trace (snd (try_finally f g w)) = trace w @ (a @ b) \<and> (\<forall>e \<in> set (a @ b). A e)"
    by auto
  then show "\<exists>es. trace (snd (try_finally f g w)) = trace w @ es \<and> (\<forall>e \<in> set es. A e)"
    by blast
qed

lemma ae_with_img: "(\<And>i. all_events A (f i)) \<Longrightarrow> all_events A (with_img c f)"
  by (simp add: with_img_def ae_raise split: option.splits)

lemma ae_copy_files:
  assumes "\<And>s d. A (Rsync s d)"
  shows "all_events A (copy_files E fl)"
proof (induction fl)
  case Nil
  have "copy_files E [] = skip" by (rule ext) (simp add: skip_def)
  then show ?case by (simp add: ae_skip)
next
  case (Cons f fl)
  have "copy_files E (f # fl)
          = seq (ext E (Rsync (src f) (normpath E (mnt E @ dst f)))) (copy_files E fl)"
    by (rule ext) simp
  then show ?case using Cons assms by (simp add: ae_seq ae_ext)
qed

lemma ae_applyFiles:
  assumes "\<And>s d. A (Rsync s d)" and "\<And>i m. A (Mount i m)" and "\<And>m. A (Umount m)"
  shows "all_events A (applyFiles E i fl)"
  unfolding applyFiles_def
  by (intro ae_seq ae_try_finally ae_ext ae_copy_files assms)

lemma ae_install:
  assumes "\<And>s d. A (Rsync s d)" and "\<And>i m. A (Mount i m)" and "\<And>m. A (Umount m)"
    and "A (GenerateBootScriptOverlay (builder c) x)"
  shows "all_events A (install_boot_script E c x)"
  unfolding install_boot_script_def applyOverlay_def
  by (intro ae_seq ae_with_img ae_ext ae_applyFiles assms)

lemma quiet_simps [simp]:
  "quiet k (Rsync s d)" "quiet k (Mount i m)" "quiet k (Umount m)"
  "quiet k (GenerateBootScriptOverlay b (Some x))"
  "quiet HostInit (Run argv cwd)"
  "quiet TargetInit (Print s)" "quiet TargetInit (CheckCall argv)"
  "quiet TargetInit (GenerateBootScriptOverlay b None)"
  "quiet RunSpecInstall (GenRunScript cm)"
  by (simp_all add: quiet_def)

lemma marked:
  assumes "all_events (quiet k) g" and "enters m = Some k" and "stage_of m = Some k"
    and "field_set c k"
  shows "stage_run c k (seq (emit m) g)"
  unfolding stage_run_def
proof
  fix w :: world
  let ?w1 = "w\<lparr>trace := trace w @ [m]\<rparr>"
  have s: "seq (emit m) g w = g ?w1" by (simp add: seq_def emit_def)
  from assms(1) obtain es where
    "trace (snd (g ?w1)) = trace ?w1 @ es" "\<forall>e \<in> set es. quiet k e"
    unfolding all_events_def by blast
  then have "trace (snd (seq (emit m) g w)) = trace w @ (m # es) \<and> part c k (m # es)
              \<and> (fst (seq (emit m) g w) = None \<and> field_set c k \<longrightarrow> m # es \<noteq> [])"
    using s assms(2,3,4) by (simp add: part_def)
  then show "\<exists>a. trace (snd (seq (emit m) g w)) = trace w @ a \<and> part c k a
              \<and> (fst (seq (emit m) g w) = None \<and> field_set c k \<longrightarrow> a \<noteq> [])"
    by blast
qed

lemma unset: "\<not> field_set c k \<Longrightarrow> stage_run c k skip"
  by (simp add: stage_run_def skip_def part_def)

lemma seed_run: "stage_run c Seed (seed_stage E c)"
  by (auto simp: stage_run_def seed_stage_def with_img_def raise_def ext_trace part_def quiet_def
           split: option.splits)

lemma host_init_run: "stage_run c HostInit (host_init_stage E c)"
proof (cases "host_init c")
  case None
  then show ?thesis by (simp add: host_init_stage_def unset)
next
  case (Some h)
  then show ?thesis
    unfolding host_init_stage_def
    by (simp, intro marked ae_seq ae_require ae_ext) simp_all
qed

lemma files_run: "stage_run c FileOverlay (files_stage E c)"
proof (cases "files c")
  case None
  then show ?thesis by (simp add: files_stage_def unset)
next
  case (Some fl)
  then show ?thesis
    unfolding files_stage_def
    by (simp, intro marked ae_with_img ae_applyFiles) simp_all
qed

lemma target_init_run: "stage_run c TargetInit (target_init_stage E c)"
proof (cases "init c")
  case None
  then show ?thesis by (simp add: target_init_stage_def unset)
next
  case (Some s)
  then show ?thesis
    unfolding target_init_stage_def launchQemu_def
    by (simp, intro marked ae_seq ae_require ae_ext ae_emit ae_install) simp_all
qed

lemma run_spec_run: "stage_run c RunSpecInstall (run_spec_stage E c)"
proof (cases "runSpec c")
  case None
  then show ?thesis by (simp add: run_spec_stage_def unset)
next
  case (Some spec)
  show ?thesis
  proof (cases "command spec")
    case (Some cmd)
    with \<open>runSpec c = Some spec\<close> show ?thesis
      unfolding run_spec_stage_def install_run_script_def
      by (simp, intro marked ae_seq ae_require ae_ext ae_emit ae_install) simp_all
  next
    case None
    show ?thesis
    proof (cases "path spec")
      case None
      with \<open>runSpec c = Some spec\<close> \<open>command spec = None\<close> show ?thesis
        by (simp add: run_spec_stage_def stage_run_def raise_def part_def)
    next
      case (Some p)
      with \<open>runSpec c = Some spec\<close> \<open>command spec = None\<close> show ?thesis
        unfolding run_spec_stage_def install_run_script_def
        by (simp, intro marked ae_seq ae_require ae_ext ae_emit ae_install) simp_all
    qed
  qed
qed

subsection \<open>The states in sequence\<close>

lemma parts_aborted: "parts c ks False []"
  by (induction ks) (simp_all add: part_def)

lemma last_parts:
  assumes "stage_run c k f"
  shows "\<exists>es. trace (snd (f w)) = trace w @ es \<and> parts c [k] (fst (f w) = None) es"
proof -
  from assms obtain a where "trace (snd (f w)) = trace w @ a" "part c k a"
    "fst (f w) = None \<and> field_set c k \<longrightarrow> a \<noteq> []"
    unfolding stage_run_def by blast
  then have "trace (snd (f w)) = trace w @ a \<and> parts c [k] (fst (f w) = None) a"
    by simp
  then show ?thesis by blast
qed

lemma seq_parts:
  assumes "stage_run c k f"
    and "\<And>w. \<exists>b. trace (snd (g w)) = trace w @ b \<and> parts c ks (fst (g w) = None) b"
  shows "\<exists>es. trace (snd (seq f g w)) = trace w @ es
              \<and> parts c (k # ks) (fst (seq f g w) = None) es"
proof -
  from assms(1) obtain a where a: "trace (snd (f w)) = trace w @ a" "part c k a"
    "fst (f w) = None \<and> field_set c k \<longrightarrow> a \<noteq> []"
    unfolding stage_run_def by blast
  show ?thesis
  proof (cases "fst (f w)")
    case None
    then have s: "seq f g w = g (snd (f w))"
      by (cases "f w") (simp add: seq_def)
    from assms(2) [of "snd (f w)"] obtain b where
      b: "trace (snd (g (snd (f w)))) = trace (snd (f w)) @ b"
         "parts c ks (fst (g (snd (f w))) = None) b" by blast
    have "trace (snd (seq f g w)) = trace w @ (a @ b)
          \<and> parts c (k # ks) (fst (seq f g w) = None) (a @ b)"
      unfolding s using a b None by auto
    then show ?thesis by blast
  next
    case (Some e)
    then have s: "seq f g w = f w"
      by (cases "f w") (simp add: seq_def)
    have "parts c (k # ks) False (a @ [])"
      unfolding parts.simps using a(2) parts_aborted by blast
    then have "trace (snd (seq f g w)) = trace w @ a
          \<and> parts c (k # ks) (fst (seq f g w) = None) a"
      unfolding s using a(1) Some by simp
    then show ?thesis by blast
  qed
qed

lemma makeImage_parts:
  "\<exists>es. trace (snd (makeImage E c w)) = trace w @ es
        \<and> parts c pipeline (fst (makeImage E c w) = None) es"
  unfolding makeImage_def pipeline_def
  by (intro seq_parts last_parts seed_run host_init_run files_run target_init_run run_spec_run)

lemma map_filter_append: "List.map_filter f (xs @ ys) = List.map_filter f xs @ List.map_filter f ys"
  by (simp add: List.map_filter_def)

lemma map_filter_quiet:
  "\<forall>e \<in> set es. quiet k e \<Longrightarrow> List.map_filter enters es = []"
  by (induction es) (simp_all add: List.map_filter_def quiet_def)

lemma part_enters: "part c k a \<Longrightarrow> List.map_filter enters a = (if a = [] then [] else [k])"
  by (auto simp: part_def List.map_filter_simps map_filter_quiet)

lemma parts_enters:
  "parts c ks ok es \<Longrightarrow>
     subseq (List.map_filter enters es) (filter (field_set c) ks)
     \<and> (ok \<longrightarrow> List.map_filter enters es = filter (field_set c) ks)"
proof (induction ks arbitrary: es)
  case Nil
  then show ?case by (simp add: List.map_filter_simps)
next
  case (Cons k ks)
  from Cons.prems obtain a b where ab: "es = a @ b" "part c k a"
    "ok \<and> field_set c k \<longrightarrow> a \<noteq> []" "parts c ks ok b" by auto
  note ih = Cons.IH [OF ab(4)]
  show ?case
  proof (cases "a = []")
    case True
    with ab ih show ?thesis
      by (auto simp: map_filter_append List.map_filter_simps)
  next
    case False
    with ab(2) have "field_set c k" by (simp add: part_def)
    with False ab ih show ?thesis
      by (simp add: map_filter_append part_enters)
  qed
qed

lemma map_filter_stage_quiet:
  "\<forall>e \<in> set es. quiet k e \<Longrightarrow> set (List.map_filter stage_of es) \<subseteq> {k}"
  by (induction es) (auto simp: List.map_filter_def quiet_def)

lemma part_stage_of: "part c k a \<Longrightarrow> set (List.map_filter stage_of a) \<subseteq> {k}"
  unfolding part_def
  using map_filter_stage_quiet by (fastforce simp: List.map_filter_simps)

lemma sorted_single: "set xs \<subseteq> {k} \<Longrightarrow> sorted (map f xs)"
  by (induction xs) auto

lemma parts_stage_of:
  "parts c ks ok es \<Longrightarrow> sorted (map stage_index ks) \<Longrightarrow>
     sorted (map stage_index (List.map_filter stage_of es))
     \<and> set (List.map_filter stage_of es) \<subseteq> set ks"
proof (induction ks arbitrary: es)
  case Nil
  then show ?case by (simp add: List.map_filter_simps)
next
  case (Cons k ks)
  from Cons.prems(1) obtain a b where ab: "es = a @ b" "part c k a" "parts c ks ok b" by auto
  from Cons.prems(2) have sk: "sorted (map stage_index ks)"
    and le: "\<forall>j \<in> set ks. stage_index k \<le> stage_index j" by auto
  note ih = Cons.IH [OF ab(3) sk]
  note pa = part_stage_of [OF ab(2)]
  have "sorted (map stage_index (List.map_filter stage_of a))"
    using pa by (rule sorted_single)
  moreover have "\<forall>x \<in> set (List.map_filter stage_of a). \<forall>y \<in> set (List.map_filter stage_of b).
                   stage_index x \<le> stage_index y"
    using pa ih le by auto
  ultimately show ?case
    using ih pa ab(1) by (auto simp: map_filter_append sorted_append)
qed

subsection \<open>The actions of a run\<close>

lemma tidy_simps [simp]:
  "tidy []" "tidy (xs @ [Umount m])" "tidy (xs @ [Mount i m])"
  "tidy (xs @ [Copy s d])" "tidy (xs @ [Run argv cwd])" "tidy (xs @ [CheckCall argv])"
  "tidy (xs @ [GenerateBootScriptOverlay b x])" "tidy (xs @ [GenRunScript cm])"
  "tidy (xs @ [LogInfo l])" "tidy (xs @ [Print s])"
  by (simp_all add: tidy_def is_rsync_def)

lemma tidy_single: "\<not> is_rsync e \<Longrightarrow> tidy [e]"
  by (simp add: tidy_def)

lemma tidy_append: "tidy xs \<Longrightarrow> tidy ys \<Longrightarrow> tidy (xs @ ys)"
  by (cases "ys = []") (auto simp: tidy_def)

lemma effect_trace: "trace (effect E ev w) = trace w"
  by (cases ev) (simp_all add: effect_def split: option.splits)

lemma cut_of_Nil [simp]: "cut_of E full []"
  by (simp add: cut_of_def)

lemma cut_of_extend: "cut_of E x a \<Longrightarrow> cut_of E (x @ y) a"
proof -
  assume "cut_of E x a"
  then consider "prefix a x" "tidy a"
    | p where "a = p @ [Umount (mnt E)]" "prefix p x" "p \<noteq> []" "is_rsync (last p)"
    unfolding cut_of_def by blast
  then show "cut_of E (x @ y) a"
  proof cases
    case 1
    then show ?thesis by (simp add: cut_of_def prefix_prefix)
  next
    case 2
    then have "a = p @ [Umount (mnt E)] \<and> prefix p (x @ y) \<and> p \<noteq> [] \<and> is_rsync (last p)"
      by (simp add: prefix_prefix)
    then show ?thesis unfolding cut_of_def by blast
  qed
qed

lemma cut_of_after:
  assumes "cut_of E y b" and "tidy x"
  shows "cut_of E (x @ y) (x @ b)"
  using assms(1) unfolding cut_of_def
proof (elim disjE conjE exE)
  assume "prefix b y" "tidy b"
  with assms(2) have "prefix (x @ b) (x @ y) \<and> tidy (x @ b)"
    by (simp add: tidy_append)
  then show "prefix (x @ b) (x @ y) \<and> tidy (x @ b)
      \<or> (\<exists>p. x @ b = p @ [Umount (mnt E)] \<and> prefix p (x @ y) \<and> p \<noteq> [] \<and> is_rsync (last p))"
    by blast
next
  fix p
  assume "b = p @ [Umount (mnt E)]" "prefix p y" "p \<noteq> []" "is_rsync (last p)"
  then have "x @ b = (x @ p) @ [Umount (mnt E)] \<and> prefix (x @ p) (x @ y) \<and> x @ p \<noteq> []
              \<and> is_rsync (last (x @ p))"
    by simp
  then show "prefix (x @ b) (x @ y) \<and> tidy (x @ b)
      \<or> (\<exists>p. x @ b = p @ [Umount (mnt E)] \<and> prefix p (x @ y) \<and> p \<noteq> [] \<and> is_rsync (last p))"
    by blast
qed

lemma runs_skip: "runs E [] skip"
  by (simp add: runs_def skip_def)

lemma runs_raise: "runs E full (raise e)"
  by (simp add: runs_def raise_def)

lemma runs_emit: "runs E [ev] (emit ev)"
  by (simp add: runs_def emit_def)

lemma runs_ext: "\<not> is_rsync ev \<Longrightarrow> runs E [ev] (ext E ev)"
  by (simp add: runs_def ext_def effect_trace cut_of_def tidy_def)

lemma runs_require: "runs E [] (require_exists E p e)"
  by (simp add: runs_def require_exists_def)

lemma runs_seq:
  assumes "runs E x f" and "runs E y g" and "tidy x"
  shows "runs E (x @ y) (seq f g)"
  unfolding runs_def
proof
  fix w
  from assms(1) obtain a where a: "trace (snd (f w)) = trace w @ a"
    "if fst (f w) = None then a = x else cut_of E x a"
    unfolding runs_def by blast
  show "\<exists>a. trace (snd (seq f g w)) = trace w @ a
            \<and> (if fst (seq f g w) = None then a = x @ y else cut_of E (x @ y) a)"
  proof (cases "fst (f w)")
    case (Some e)
    then have s: "seq f g w = f w" by (cases "f w") (simp add: seq_def)
    from a Some have "cut_of E (x @ y) a" by (simp add: cut_of_extend)
    with a(1) Some show ?thesis unfolding s by auto
  next
    case None
    then have s: "seq f g w = g (snd (f w))" by (cases "f w") (simp add: seq_def)
    from a None have ax: "a = x" by simp
    from assms(2) obtain b where b: "trace (snd (g (snd (f w)))) = trace (snd (f w)) @ b"
      "if fst (g (snd (f w))) = None then b = y else cut_of E y b"
      unfolding runs_def by blast
    have "trace (snd (seq f g w)) = trace w @ (x @ b)
            \<and> (if fst (seq f g w) = None then x @ b = x @ y else cut_of E (x @ y) (x @ b))"
      unfolding s using a(1) ax b assms(3) by (auto simp: cut_of_after)
    then show ?thesis by blast
  qed
qed

lemma runs_with_img:
  assumes "\<And>i. img c = Some i \<Longrightarrow> runs E (g i) (f i)"
  shows "runs E (on_img c g) (with_img c f)"
  using assms by (cases "img c") (simp_all add: on_img_def with_img_def runs_raise)

lemma copy_files_runs:
  "\<exists>a. trace (snd (copy_files E fl w)) = trace w @ a
       \<and> (if fst (copy_files E fl w) = None then a = map (rsync_of E) fl
           else prefix a (map (rsync_of E) fl) \<and> a \<noteq> [] \<and> is_rsync (last a))"
proof (induction fl arbitrary: w)
  case Nil
  then show ?case by simp
next
  case (Cons f fl)
  let ?ev = "rsync_of E f"
  show ?case
  proof (cases "succeeds E (trace w) ?ev")
    case True
    let ?w1 = "effect E ?ev (w\<lparr>trace := trace w @ [?ev]\<rparr>)"
    have w1: "trace ?w1 = trace w @ [?ev]"
      by (simp add: effect_def rsync_of_def split: option.splits)
    have step: "copy_files E (f # fl) w = copy_files E fl ?w1"
      using True by (simp add: seq_def ext_def rsync_of_def)
    from Cons.IH [of ?w1] obtain a where a:
      "trace (snd (copy_files E fl ?w1)) = trace ?w1 @ a"
      "if fst (copy_files E fl ?w1) = None then a = map (rsync_of E) fl
       else prefix a (map (rsync_of E) fl) \<and> a \<noteq> [] \<and> is_rsync (last a)" by blast
    have "trace (snd (copy_files E (f # fl) w)) = trace w @ (?ev # a)
          \<and> (if fst (copy_files E (f # fl) w) = None then ?ev # a = map (rsync_of E) (f # fl)
              else prefix (?ev # a) (map (rsync_of E) (f # fl)) \<and> ?ev # a \<noteq> []
                   \<and> is_rsync (last (?ev # a)))"
      unfolding step using a w1 by (auto split: if_splits)
    then show ?thesis by blast
  next
    case False
    then have "trace (snd (copy_files E (f # fl) w)) = trace w @ [?ev]
          \<and> (if fst (copy_files E (f # fl) w) = None then [?ev] = map (rsync_of E) (f # fl)
              else prefix [?ev] (map (rsync_of E) (f # fl)) \<and> [?ev] \<noteq> []
                   \<and> is_rsync (last [?ev]))"
      by (simp add: seq_def ext_def rsync_of_def is_rsync_def)
    then show ?thesis by blast
  qed
qed

lemma runs_applyFiles: "runs E (apply_events E i fl) (applyFiles E i fl)"
  unfolding runs_def
proof
  fix w
  let ?M = "Mount i (mnt E)" and ?U = "Umount (mnt E)"
  let ?goal = "\<lambda>a. trace (snd (applyFiles E i fl w)) = trace w @ a
        \<and> (if fst (applyFiles E i fl w) = None then a = apply_events E i fl
            else cut_of E (apply_events E i fl) a)"
  show "\<exists>a. ?goal a"
  proof (cases "succeeds E (trace w) ?M")
    case False
    then have "?goal [?M]"
      by (simp add: applyFiles_def seq_def ext_def cut_of_def apply_events_def tidy_def
            is_rsync_def)
    then show ?thesis by blast
  next
    case True
    let ?w1 = "effect E ?M (w\<lparr>trace := trace w @ [?M]\<rparr>)"
    have w1: "trace ?w1 = trace w @ [?M]" by (simp add: effect_def)
    obtain r w2 where c: "copy_files E fl ?w1 = (r, w2)" by (cases "copy_files E fl ?w1")
    from copy_files_runs [of E fl ?w1] c obtain a where a:
      "trace w2 = trace ?w1 @ a"
      "if r = None then a = map (rsync_of E) fl
       else prefix a (map (rsync_of E) fl) \<and> a \<noteq> [] \<and> is_rsync (last a)" by auto
    have run: "applyFiles E i fl w =
        (case ext E ?U w2 of (None, w3) \<Rightarrow> (r, w3) | (Some e, w3) \<Rightarrow> (Some e, w3))"
      using True c by (simp add: applyFiles_def seq_def ext_def try_finally_def)
    have t: "trace (snd (applyFiles E i fl w)) = trace w @ (?M # a @ [?U])"
      unfolding run using a(1) w1
      by (simp add: ext_def effect_def split: prod.splits option.splits)
    have res: "fst (applyFiles E i fl w) = None \<Longrightarrow> r = None"
      unfolding run by (simp add: ext_def split: if_splits)
    show ?thesis
    proof (cases r)
      case None
      with a(2) have "?M # a @ [?U] = apply_events E i fl" by (simp add: apply_events_def)
      moreover have "cut_of E (apply_events E i fl) (apply_events E i fl)"
        by (simp add: cut_of_def apply_events_def tidy_def is_rsync_def)
      ultimately have "?goal (?M # a @ [?U])" using t by simp
      then show ?thesis by blast
    next
      case (Some e)
      with a(2) have p: "prefix a (map (rsync_of E) fl)" "a \<noteq> []" "is_rsync (last a)" by simp_all
      have "cut_of E (apply_events E i fl) (?M # a @ [?U])"
        unfolding cut_of_def apply_events_def
      proof (intro disjI2 exI conjI)
        show "?M # a @ [?U] = (?M # a) @ [Umount (mnt E)]" by simp
        show "prefix (?M # a) (?M # map (rsync_of E) fl @ [?U])"
          using p(1) by (simp add: prefix_prefix)
        show "?M # a \<noteq> []" by simp
        show "is_rsync (last (?M # a))" using p(2,3) by simp
      qed
      moreover have "fst (applyFiles E i fl w) \<noteq> None" using res Some by auto
      ultimately have "?goal (?M # a @ [?U])" using t by (simp only: if_False simp_thms)
      then show ?thesis by blast
    qed
  qed
qed

lemma tidy_apply_events [simp]: "tidy (apply_events E i fl)"
  by (simp add: apply_events_def tidy_def is_rsync_def)

lemma tidy_overlay_events [simp]: "tidy (overlay_events E c x)"
  by (cases "img c") (simp_all add: overlay_events_def on_img_def tidy_def is_rsync_def
        apply_events_def)

lemma tidy_Cons2: "tidy (e # x # xs) = tidy (x # xs)"
  by (simp add: tidy_def)

lemma runs_install: "runs E (overlay_events E c x) (install_boot_script E c x)"
proof -
  have "runs E ([GenerateBootScriptOverlay (builder c) x]
                @ on_img c (\<lambda>i. apply_events E i
                     [\<lparr>src = path_join (overlay_dir E (builder c) x) ''*'', dst = ''/''\<rparr>]))
          (install_boot_script E c x)"
    unfolding install_boot_script_def applyOverlay_def
    by (intro runs_seq runs_with_img runs_ext runs_applyFiles)
       (simp_all add: is_rsync_def tidy_def)
  then show ?thesis by (simp add: overlay_events_def)
qed

lemma runs_seed: "runs E (seed_events c) (seed_stage E c)"
proof (cases "base_img c")
  case None
  then show ?thesis by (simp add: seed_events_def seed_stage_def runs_raise)
next
  case (Some b)
  then show ?thesis
    unfolding seed_events_def seed_stage_def
    by (simp, intro runs_with_img runs_ext) (simp add: is_rsync_def)
qed

lemma runs_host_init: "runs E (host_init_events c) (host_init_stage E c)"
proof (cases "host_init c")
  case None
  then show ?thesis by (simp add: host_init_events_def host_init_stage_def runs_skip)
next
  case (Some h)
  have "runs E ([LogInfo (ApplyingHostInit h)] @ [] @ [Run [h] (workdir c)])
          (seq (emit (LogInfo (ApplyingHostInit h)))
            (seq (require_exists E h (ValueError (''host_init script '' @ h @ '' not found.'')))
                 (ext E (Run [h] (workdir c)))))"
    by (intro runs_seq runs_emit runs_require runs_ext) (simp_all add: is_rsync_def tidy_def)
  with Some show ?thesis by (simp add: host_init_events_def host_init_stage_def)
qed

lemma runs_files: "runs E (files_events E c) (files_stage E c)"
proof (cases "files c")
  case None
  then show ?thesis by (simp add: files_events_def files_stage_def runs_skip)
next
  case (Some fl)
  have "runs E ([LogInfo (ApplyingFileList fl)] @ on_img c (\<lambda>i. apply_events E i fl))
          (seq (emit (LogInfo (ApplyingFileList fl))) (with_img c (\<lambda>i. applyFiles E i fl)))"
    by (intro runs_seq runs_emit runs_with_img runs_applyFiles) (simp add: tidy_def is_rsync_def)
  with Some show ?thesis by (simp add: files_events_def files_stage_def)
qed

lemma runs_target_init: "runs E (target_init_events E c) (target_init_stage E c)"
proof (cases "init c")
  case None
  then show ?thesis by (simp add: target_init_events_def target_init_stage_def runs_skip)
next
  case (Some s)
  have "runs E ([LogInfo (ApplyingInitScript s)] @ [] @ overlay_events E c (Some s)
                @ [Print (''Launching: '' @ bin c)] @ [CheckCall (qemu_cmd c False)]
                @ overlay_events E c None)
          (seq (emit (LogInfo (ApplyingInitScript s)))
            (seq (require_exists E s (ValueError (''Init script '' @ s @ '' not found.'')))
            (seq (install_boot_script E c (Some s))
            (seq (emit (Print (''Launching: '' @ bin c)))
            (seq (launchQemu E c False)
                 (install_boot_script E c None))))))"
    unfolding launchQemu_def
    by (intro runs_seq runs_emit runs_require runs_ext runs_install)
       (simp_all add: is_rsync_def tidy_single)
  with Some show ?thesis by (simp add: target_init_events_def target_init_stage_def)
qed

lemma runs_install_run:
  "runs E ([] @ overlay_events E c (Some p)) (install_run_script E c p)"
  unfolding install_run_script_def
  by (intro runs_seq runs_require runs_install) simp

lemma runs_run_spec: "runs E (run_spec_events E c) (run_spec_stage E c)"
proof (cases "runSpec c")
  case None
  then show ?thesis by (simp add: run_spec_events_def run_spec_stage_def runs_skip)
next
  case (Some r)
  show ?thesis
  proof (cases "command r")
    case (Some cmd)
    have "runs E ([LogInfo (ApplyingRunCommand cmd)] @ [GenRunScript cmd]
                  @ [] @ overlay_events E c (Some (genRunScript E cmd)))
            (seq (emit (LogInfo (ApplyingRunCommand cmd)))
              (seq (ext E (GenRunScript cmd))
                   (install_run_script E c (genRunScript E cmd))))"
      by (intro runs_seq runs_emit runs_ext runs_install_run)
         (simp_all add: is_rsync_def tidy_def)
    with Some \<open>runSpec c = Some r\<close> show ?thesis
      by (simp add: run_spec_events_def run_spec_stage_def)
  next
    case None
    show ?thesis
    proof (cases "path r")
      case None
      with \<open>runSpec c = Some r\<close> \<open>command r = None\<close> show ?thesis
        by (simp add: run_spec_events_def run_spec_stage_def runs_raise)
    next
      case (Some p)
      have "runs E ([LogInfo (ApplyingRunScript p)] @ [] @ overlay_events E c (Some p))
            (seq (emit (LogInfo (ApplyingRunScript p))) (install_run_script E c p))"
        by (intro runs_seq runs_emit runs_install_run) (simp_all add: tidy_def is_rsync_def)
      with Some \<open>runSpec c = Some r\<close> \<open>command r = None\<close> show ?thesis
        by (simp add: run_spec_events_def run_spec_stage_def)
    qed
  qed
qed

lemma tidy_seed [simp]: "tidy (seed_events c)"
  by (simp add: seed_events_def on_img_def tidy_def is_rsync_def split: option.splits)

lemma tidy_host_init [simp]: "tidy (host_init_events c)"
  by (simp add: host_init_events_def tidy_def is_rsync_def split: option.splits)

lemma tidy_files [simp]: "tidy (files_events E c)"
proof (cases "files c")
  case None
  then show ?thesis by (simp add: files_events_def)
next
  case (Some fl)
  have "tidy (on_img c (\<lambda>i. apply_events E i fl))"
    by (simp add: on_img_def split: option.splits)
  then have "tidy ([LogInfo (ApplyingFileList fl)] @ on_img c (\<lambda>i. apply_events E i fl))"
    by (intro tidy_append) (simp_all add: tidy_def is_rsync_def)
  with Some show ?thesis by (simp add: files_events_def)
qed

lemma tidy_target_init [simp]: "tidy (target_init_events E c)"
proof (cases "init c")
  case None
  then show ?thesis by (simp add: target_init_events_def)
next
  case (Some s)
  have "tidy (([LogInfo (ApplyingInitScript s)] @ overlay_events E c (Some s)
          @ [Print (''Launching: '' @ bin c), CheckCall (qemu_cmd c False)])
          @ overlay_events E c None)"
    by (intro tidy_append) (simp_all add: tidy_Cons2 tidy_single is_rsync_def)
  with Some show ?thesis by (simp add: target_init_events_def)
qed

lemma runs_makeImage: "runs E (pipeline_events E c) (makeImage E c)"
  unfolding pipeline_events_def makeImage_def
  by (intro runs_seq runs_seed runs_host_init runs_files runs_target_init runs_run_spec) simp_all

text \<open>
  C5. In every run of \<open>makeImage\<close>: when it returns, its actions are exactly those of the
  five states seed, host-init, file-overlay, target-init, run-spec in this order, each
  state present only if its key is; when it raises, its actions are those of the states
  in this order cut short where it failed (after a failed copy, the unmount of the
  \<open>finally\<close> block follows). Whether it returns or raises, the states entered, in the order
  they are entered, form a subsequence of the five states restricted to those whose key is
  present (so none is entered out of order, twice, or without its key); every action that
  belongs to one state only comes in the order of the states; and when \<open>makeImage\<close>
  returns, the states entered are exactly those whose key is present.
\<close>

theorem makeImage_states_in_order:
  assumes "trace (snd (makeImage E c w)) = trace w @ es"
  shows "(if fst (makeImage E c w) = None then es = pipeline_events E c
          else cut_of E (pipeline_events E c) es)
         \<and> subseq (List.map_filter enters es) (filter (field_set c) pipeline)
         \<and> sorted (map stage_index (List.map_filter stage_of es))
         \<and> (fst (makeImage E c w) = None
              \<longrightarrow> List.map_filter enters es = filter (field_set c) pipeline)"
proof -
  from runs_makeImage [of E c] obtain a where
    a: "trace (snd (makeImage E c w)) = trace w @ a"
    and r: "if fst (makeImage E c w) = None then a = pipeline_events E c
            else cut_of E (pipeline_events E c) a"
    unfolding runs_def by blast
  from a assms have "a = es" by simp
  with r have e: "if fst (makeImage E c w) = None then es = pipeline_events E c
                  else cut_of E (pipeline_events E c) es"
    by (simp only:)
  from makeImage_parts [of E c w] assms
  have p: "parts c pipeline (fst (makeImage E c w) = None) es" by auto
  have s: "sorted (map stage_index pipeline)" by (simp add: pipeline_def)
  from e parts_enters [OF p] parts_stage_of [OF p s] show ?thesis by blast
qed

lemmas run_defs =
  makeImage_def seed_stage_def host_init_stage_def files_stage_def
  target_init_stage_def run_spec_stage_def install_run_script_def install_boot_script_def
  applyOverlay_def applyFiles_def launchQemu_def with_img_def
  seq_def try_finally_def ext_def emit_def skip_def require_exists_def effect_def

theorem makeImage_states_in_order_witness:
  "trace (snd (makeImage env0 wl_host world0)) = trace world0 @
     [Copy ''/base.img'' ''/w.img'',
      LogInfo (ApplyingHostInit ''/host.sh''), Run [''/host.sh''] ''/wd'',
      LogInfo (ApplyingFileList [\<lparr>src = ''/one'', dst = ''/etc''\<rparr>]),
      Mount ''/w.img'' ''/mnt'', Rsync ''/one'' ''/mnt/etc'', Umount ''/mnt'']
   \<and> fst (makeImage env0 wl_host world0) = None
   \<and> pipeline_events env0 wl_host =
       [Copy ''/base.img'' ''/w.img'',
        LogInfo (ApplyingHostInit ''/host.sh''), Run [''/host.sh''] ''/wd'',
        LogInfo (ApplyingFileList [\<lparr>src = ''/one'', dst = ''/etc''\<rparr>]),
        Mount ''/w.img'' ''/mnt'', Rsync ''/one'' ''/mnt/etc'', Umount ''/mnt'']
   \<and> filter (field_set wl_host) pipeline = [Seed, HostInit, FileOverlay]
   \<and> List.map_filter enters
       [Copy ''/base.img'' ''/w.img'',
        LogInfo (ApplyingHostInit ''/host.sh''), Run [''/host.sh''] ''/wd'',
        LogInfo (ApplyingFileList [\<lparr>src = ''/one'', dst = ''/etc''\<rparr>]),
        Mount ''/w.img'' ''/mnt'', Rsync ''/one'' ''/mnt/etc'', Umount ''/mnt'']
       = [Seed, HostInit, FileOverlay]"
proof -
  have n: "posix_normpath ''/mnt/etc'' = ''/mnt/etc''"
    by (simp add: posix_normpath_def Let_def)
  have e: "makeImage env0 wl_host world0 =
     (None, world0\<lparr>trace :=
       [Copy ''/base.img'' ''/w.img'',
        LogInfo (ApplyingHostInit ''/host.sh''), Run [''/host.sh''] ''/wd'',
        LogInfo (ApplyingFileList [\<lparr>src = ''/one'', dst = ''/etc''\<rparr>]),
        Mount ''/w.img'' ''/mnt'', Rsync ''/one'' ''/mnt/etc'', Umount ''/mnt'']\<rparr>)"
    by (simp add: run_defs wl_host_def wl_img_def wl_meta_def env0_def world0_def n)
  have t: "trace (snd (makeImage env0 wl_host world0)) = trace world0 @
     [Copy ''/base.img'' ''/w.img'',
      LogInfo (ApplyingHostInit ''/host.sh''), Run [''/host.sh''] ''/wd'',
      LogInfo (ApplyingFileList [\<lparr>src = ''/one'', dst = ''/etc''\<rparr>]),
      Mount ''/w.img'' ''/mnt'', Rsync ''/one'' ''/mnt/etc'', Umount ''/mnt'']"
    and ok: "fst (makeImage env0 wl_host world0) = None"
    unfolding e by (simp_all add: world0_def)
  have f: "filter (field_set wl_host) pipeline = [Seed, HostInit, FileOverlay]"
    by (simp add: pipeline_def wl_host_def wl_img_def wl_meta_def)
  note th = makeImage_states_in_order [OF t]
  from th have 1: "if fst (makeImage env0 wl_host world0) = None
      then [Copy ''/base.img'' ''/w.img'',
        LogInfo (ApplyingHostInit ''/host.sh''), Run [''/host.sh''] ''/wd'',
        LogInfo (ApplyingFileList [\<lparr>src = ''/one'', dst = ''/etc''\<rparr>]),
        Mount ''/w.img'' ''/mnt'', Rsync ''/one'' ''/mnt/etc'', Umount ''/mnt''] = pipeline_events env0 wl_host
      else cut_of env0 (pipeline_events env0 wl_host)
       [Copy ''/base.img'' ''/w.img'',
        LogInfo (ApplyingHostInit ''/host.sh''), Run [''/host.sh''] ''/wd'',
        LogInfo (ApplyingFileList [\<lparr>src = ''/one'', dst = ''/etc''\<rparr>]),
        Mount ''/w.img'' ''/mnt'', Rsync ''/one'' ''/mnt/etc'', Umount ''/mnt'']"
    by (elim conjE)
  from th have 4: "fst (makeImage env0 wl_host world0) = None \<longrightarrow>
      List.map_filter enters
       [Copy ''/base.img'' ''/w.img'',
        LogInfo (ApplyingHostInit ''/host.sh''), Run [''/host.sh''] ''/wd'',
        LogInfo (ApplyingFileList [\<lparr>src = ''/one'', dst = ''/etc''\<rparr>]),
        Mount ''/w.img'' ''/mnt'', Rsync ''/one'' ''/mnt/etc'', Umount ''/mnt''] = filter (field_set wl_host) pipeline"
    by (elim conjE)
  from 1 ok have "[Copy ''/base.img'' ''/w.img'',
        LogInfo (ApplyingHostInit ''/host.sh''), Run [''/host.sh''] ''/wd'',
        LogInfo (ApplyingFileList [\<lparr>src = ''/one'', dst = ''/etc''\<rparr>]),
        Mount ''/w.img'' ''/mnt'', Rsync ''/one'' ''/mnt/etc'', Umount ''/mnt''] = pipeline_events env0 wl_host"
    by (simp only: if_True simp_thms)
  then have pe: "pipeline_events env0 wl_host =
       [Copy ''/base.img'' ''/w.img'',
        LogInfo (ApplyingHostInit ''/host.sh''), Run [''/host.sh''] ''/wd'',
        LogInfo (ApplyingFileList [\<lparr>src = ''/one'', dst = ''/etc''\<rparr>]),
        Mount ''/w.img'' ''/mnt'', Rsync ''/one'' ''/mnt/etc'', Umount ''/mnt'']"
    by (rule sym)
  from 4 [rule_format, OF ok] f have me: "List.map_filter enters
       [Copy ''/base.img'' ''/w.img'',
        LogInfo (ApplyingHostInit ''/host.sh''), Run [''/host.sh''] ''/wd'',
        LogInfo (ApplyingFileList [\<lparr>src = ''/one'', dst = ''/etc''\<rparr>]),
        Mount ''/w.img'' ''/mnt'', Rsync ''/one'' ''/mnt/etc'', Umount ''/mnt'']
       = [Seed, HostInit, FileOverlay]"
    by (simp only:)
  from t ok pe f me show ?thesis by (intro conjI)
qed

subsection \<open>The init script runs once and is cleared\<close>

lemma install_boot_script_ok:
  assumes "install_boot_script E c x w = (None, w')" and "img c = Some i"
  shows "trace w' = trace w @
           [GenerateBootScriptOverlay (builder c) x, Mount i (mnt E),
            Rsync (path_join (overlay_dir E (builder c) x) ''*'') (normpath E (mnt E @ ''/'')),
            Umount (mnt E)]
         \<and> boot_hook w' i = x"
  using assms
  by (auto simp: install_boot_script_def applyOverlay_def applyFiles_def with_img_def seq_def
        try_finally_def ext_def effect_def split: if_splits)

lemma target_init_ok:
  assumes "target_init_stage E c w = (None, w')" and "init c = Some s" and "img c = Some i"
  shows "trace w' = trace w @
           [LogInfo (ApplyingInitScript s),
            GenerateBootScriptOverlay (builder c) (Some s), Mount i (mnt E),
            Rsync (path_join (overlay_dir E (builder c) (Some s)) ''*'')
                  (normpath E (mnt E @ ''/'')),
            Umount (mnt E),
            Print (''Launching: '' @ bin c),
            CheckCall (qemu_cmd c False),
            GenerateBootScriptOverlay (builder c) None, Mount i (mnt E),
            Rsync (path_join (overlay_dir E (builder c) None) ''*'')
                  (normpath E (mnt E @ ''/'')),
            Umount (mnt E)]
         \<and> boot_hook w' i = None"
proof -
  from assms(1,2) obtain w1 w2 w3 w4 w5 where
    1: "emit (LogInfo (ApplyingInitScript s)) w = (None, w1)" and
    2: "require_exists E s (ValueError (''Init script '' @ s @ '' not found.'')) w1 = (None, w2)" and
    3: "install_boot_script E c (Some s) w2 = (None, w3)" and
    4: "emit (Print (''Launching: '' @ bin c)) w3 = (None, w4)" and
    5: "launchQemu E c False w4 = (None, w5)" and
    6: "install_boot_script E c None w5 = (None, w')"
    by (auto simp: target_init_stage_def seq_None)
  from 1 have t1: "trace w1 = trace w @ [LogInfo (ApplyingInitScript s)]"
    by (simp add: emit_ok)
  from 2 have t2: "w2 = w1" by (rule require_ok)
  note t3 = install_boot_script_ok [OF 3 assms(3)]
  from 4 have t4: "trace w4 = trace w3 @ [Print (''Launching: '' @ bin c)]"
    by (simp add: emit_ok)
  from 5 have t5: "trace w5 = trace w4 @ [CheckCall (qemu_cmd c False)]"
    using ext_trace [of E "CheckCall (qemu_cmd c False)" w4] by (simp add: launchQemu_def)
  note t6 = install_boot_script_ok [OF 6 assms(3)]
  show ?thesis using t1 t2 t3 t4 t5 t6 by simp
qed

lemma run_spec_ok:
  assumes "run_spec_stage E c w = (None, w')" and "img c = Some i"
  shows "boot_hook w' i =
           (case runSpec c of None \<Rightarrow> boot_hook w i | Some r \<Rightarrow> resolve_run_script E r)"
proof (cases "runSpec c")
  case None
  with assms show ?thesis by (simp add: run_spec_stage_def skip_def)
next
  case (Some spec)
  show ?thesis
  proof (cases "command spec")
    case (Some cmd)
    with \<open>runSpec c = Some spec\<close> assms(1) obtain w1 where
      "install_boot_script E c (Some (genRunScript E cmd)) w1 = (None, w')"
      by (auto simp: run_spec_stage_def install_run_script_def seq_None)
    from install_boot_script_ok [OF this assms(2)] Some \<open>runSpec c = Some spec\<close>
    show ?thesis by (simp add: resolve_run_script_def)
  next
    case None
    with \<open>runSpec c = Some spec\<close> assms(1) obtain p w1 where p: "path spec = Some p"
      and "install_boot_script E c (Some p) w1 = (None, w')"
      by (auto simp: run_spec_stage_def install_run_script_def seq_None raise_def
               split: option.splits)
    from install_boot_script_ok [OF this(2) assms(2)] None p \<open>runSpec c = Some spec\<close>
    show ?thesis by (simp add: resolve_run_script_def)
  qed
qed

lemma seed_ok: "seed_stage E c w = (None, w') \<Longrightarrow> \<exists>i. img c = Some i"
  by (auto simp: seed_stage_def with_img_def raise_def split: option.splits)

lemma part_no_boot:
  assumes "part c k a" and "k \<noteq> TargetInit"
  shows "CheckCall argv \<notin> set a"
proof
  assume "CheckCall argv \<in> set a"
  with assms(1) obtain m rest where a: "a = m # rest" "enters m = Some k"
    "\<forall>e \<in> set rest. quiet k e" by (auto simp: part_def)
  from \<open>CheckCall argv \<in> set a\<close> a(1) consider "m = CheckCall argv" | "CheckCall argv \<in> set rest"
    by auto
  then show False
  proof cases
    case 1
    with a(2) show False by simp
  next
    case 2
    with a(3) have "quiet k (CheckCall argv)" by blast
    with assms(2) show False by (simp add: quiet_def)
  qed
qed

lemma stage_run_no_boot:
  assumes "stage_run c k f" and "k \<noteq> TargetInit" and "f w = (r, w')"
  shows "\<exists>a. trace w' = trace w @ a \<and> (\<forall>argv. CheckCall argv \<notin> set a)"
proof -
  from assms(1) obtain a where "trace (snd (f w)) = trace w @ a" "part c k a"
    unfolding stage_run_def by blast
  with assms(2,3) part_no_boot show ?thesis by fastforce
qed

lemma install_boot_script_at:
  assumes "install_boot_script E c x w = (None, w')" and "img c = Some i"
  shows "trace w' = trace w @
           [GenerateBootScriptOverlay (builder c) x, Mount i (mnt E),
            Rsync (path_join (overlay_dir E (builder c) x) ''*'') (normpath E (mnt E @ ''/'')),
            Umount (mnt E)]
         \<and> boot_hook w' i = x \<and> hook_from w' i = Some (length (trace w))"
  using assms
  by (auto simp: install_boot_script_def applyOverlay_def applyFiles_def with_img_def seq_def
        try_finally_def ext_def effect_def split: if_splits)

lemma target_init_at:
  assumes "target_init_stage E c w = (None, w')" and "init c = Some s" and "img c = Some i"
  shows "boot_hook w' i = None \<and> hook_from w' i = Some (length (trace w) + 7)"
proof -
  from assms(1,2) obtain w1 w2 w3 w4 w5 where
    1: "emit (LogInfo (ApplyingInitScript s)) w = (None, w1)" and
    2: "require_exists E s (ValueError (''Init script '' @ s @ '' not found.'')) w1 = (None, w2)" and
    3: "install_boot_script E c (Some s) w2 = (None, w3)" and
    4: "emit (Print (''Launching: '' @ bin c)) w3 = (None, w4)" and
    5: "launchQemu E c False w4 = (None, w5)" and
    6: "install_boot_script E c None w5 = (None, w')"
    by (auto simp: target_init_stage_def seq_None)
  from 1 have t1: "trace w1 = trace w @ [LogInfo (ApplyingInitScript s)]"
    by (simp add: emit_ok)
  from 2 have t2: "w2 = w1" by (rule require_ok)
  note t3 = install_boot_script_at [OF 3 assms(3)]
  from 4 have t4: "trace w4 = trace w3 @ [Print (''Launching: '' @ bin c)]"
    by (simp add: emit_ok)
  from 5 have t5: "trace w5 = trace w4 @ [CheckCall (qemu_cmd c False)]"
    using ext_trace [of E "CheckCall (qemu_cmd c False)" w4] by (simp add: launchQemu_def)
  note t6 = install_boot_script_at [OF 6 assms(3)]
  show ?thesis using t1 t2 t3 t4 t5 t6 by simp
qed

lemma install_run_script_at:
  assumes "install_run_script E c x w = (None, w')" and "img c = Some i"
  shows "boot_hook w' i = Some x \<and> hook_from w' i = Some (length (trace w))
         \<and> length (trace w) < length (trace w')
         \<and> trace w' ! length (trace w) = GenerateBootScriptOverlay (builder c) (Some x)"
proof -
  from assms(1) obtain w1 where
    1: "require_exists E x (ValueError (''Run script '' @ x @ '' not found.'')) w = (None, w1)"
    and 2: "install_boot_script E c (Some x) w1 = (None, w')"
    by (auto simp: install_run_script_def seq_None)
  from 1 have "w1 = w" by (rule require_ok)
  with install_boot_script_at [OF 2 assms(2)] show ?thesis by (simp add: nth_append)
qed

lemma run_spec_at:
  assumes "run_spec_stage E c w = (None, w')" and "img c = Some i" and "runSpec c = Some r"
  shows "boot_hook w' i = resolve_run_script E r
         \<and> (\<exists>k. hook_from w' i = Some k \<and> length (trace w) \<le> k \<and> k < length (trace w')
                \<and> trace w' ! k = GenerateBootScriptOverlay (builder c) (resolve_run_script E r))"
proof (cases "command r")
  case (Some cmd)
  with assms(1,3) obtain w1 w2 where
    1: "emit (LogInfo (ApplyingRunCommand cmd)) w = (None, w1)" and
    2: "ext E (GenRunScript cmd) w1 = (None, w2)" and
    3: "install_run_script E c (genRunScript E cmd) w2 = (None, w')"
    by (auto simp: run_spec_stage_def seq_None)
  from 1 have t1: "trace w1 = trace w @ [LogInfo (ApplyingRunCommand cmd)]"
    by (simp add: emit_ok)
  from 2 have t2: "trace w2 = trace w1 @ [GenRunScript cmd]"
    using ext_trace [of E "GenRunScript cmd" w1] by simp
  from install_run_script_at [OF 3 assms(2)] t1 t2 Some show ?thesis
    by (auto simp: resolve_run_script_def)
next
  case None
  with assms(1,3) obtain p w1 where p: "path r = Some p" and
    1: "emit (LogInfo (ApplyingRunScript p)) w = (None, w1)" and
    3: "install_run_script E c p w1 = (None, w')"
    by (auto simp: run_spec_stage_def seq_None raise_def split: option.splits)
  from 1 have t1: "trace w1 = trace w @ [LogInfo (ApplyingRunScript p)]"
    by (simp add: emit_ok)
  from install_run_script_at [OF 3 assms(2)] t1 None p show ?thesis
    by (auto simp: resolve_run_script_def)
qed

lemma run_spec_none: "runSpec c = None \<Longrightarrow> run_spec_stage E c w = (None, w') \<Longrightarrow> w' = w"
  by (simp add: run_spec_stage_def skip_def)

text \<open>
  C1, as the code has it. For a descriptor with an init script, whenever \<open>makeImage\<close>
  returns, its trace contains, in one run, the generation and application of the overlay
  for the init script, the launch of the emulator on the binary and the image, and the
  generation and application of the clearing overlay; the emulator is launched nowhere
  else. The boot hook of the final image is the script of the run-spec when there is one
  and no script otherwise, and the overlay it comes from is never the one generated for
  the init script in the target-init state: it is the clearing overlay when there is no
  run-spec, and otherwise an overlay generated after the clearing overlay was applied, for
  the script of the run-spec.
\<close>

theorem makeImage_target_init_once:
  assumes "init c = Some s" and "makeImage E c w = (None, w')"
  shows "\<exists>i pre post. img c = Some i
           \<and> trace w' = trace w @ pre @
               [LogInfo (ApplyingInitScript s),
                GenerateBootScriptOverlay (builder c) (Some s), Mount i (mnt E),
                Rsync (path_join (overlay_dir E (builder c) (Some s)) ''*'')
                      (normpath E (mnt E @ ''/'')),
                Umount (mnt E),
                Print (''Launching: '' @ bin c),
                CheckCall (qemu_cmd c False),
                GenerateBootScriptOverlay (builder c) None, Mount i (mnt E),
                Rsync (path_join (overlay_dir E (builder c) None) ''*'')
                      (normpath E (mnt E @ ''/'')),
                Umount (mnt E)] @ post
           \<and> (\<forall>argv. CheckCall argv \<notin> set pre \<union> set post)
           \<and> boot_hook w' i = (case runSpec c of None \<Rightarrow> None | Some r \<Rightarrow> resolve_run_script E r)
           \<and> hook_from w' i \<noteq> Some (length (trace w @ pre) + 1)
           \<and> (case runSpec c of
                 None \<Rightarrow> hook_from w' i = Some (length (trace w @ pre) + 7)
               | Some r \<Rightarrow>
                   (\<exists>k. hook_from w' i = Some k \<and> length (trace w @ pre) + 11 \<le> k
                        \<and> k < length (trace w')
                        \<and> trace w' ! k
                            = GenerateBootScriptOverlay (builder c) (resolve_run_script E r)))"
proof -
  from assms(2) obtain w1 w2 w3 w4 where
    1: "seed_stage E c w = (None, w1)" and
    2: "host_init_stage E c w1 = (None, w2)" and
    3: "files_stage E c w2 = (None, w3)" and
    4: "target_init_stage E c w3 = (None, w4)" and
    5: "run_spec_stage E c w4 = (None, w')"
    by (auto simp: makeImage_def seq_None)
  from seed_ok [OF 1] obtain i where i: "img c = Some i" by blast
  from stage_run_no_boot [OF seed_run _ 1] obtain a1 where
    a1: "trace w1 = trace w @ a1" "\<forall>argv. CheckCall argv \<notin> set a1" by auto
  from stage_run_no_boot [OF host_init_run _ 2] obtain a2 where
    a2: "trace w2 = trace w1 @ a2" "\<forall>argv. CheckCall argv \<notin> set a2" by auto
  from stage_run_no_boot [OF files_run _ 3] obtain a3 where
    a3: "trace w3 = trace w2 @ a3" "\<forall>argv. CheckCall argv \<notin> set a3" by auto
  from stage_run_no_boot [OF run_spec_run _ 5] obtain a5 where
    a5: "trace w' = trace w4 @ a5" "\<forall>argv. CheckCall argv \<notin> set a5" by auto
  note t = target_init_ok [OF 4 assms(1) i]
  note ta = target_init_at [OF 4 assms(1) i]
  note r = run_spec_ok [OF 5 i]
  have w3: "trace w3 = trace w @ (a1 @ a2 @ a3)" using a1 a2 a3 by simp
  have l4: "length (trace w4) = length (trace w @ (a1 @ a2 @ a3)) + 11"
    using t w3 by simp
  have origin: "hook_from w' i \<noteq> Some (length (trace w @ (a1 @ a2 @ a3)) + 1)
           \<and> (case runSpec c of
                 None \<Rightarrow> hook_from w' i = Some (length (trace w @ (a1 @ a2 @ a3)) + 7)
               | Some r \<Rightarrow>
                   (\<exists>k. hook_from w' i = Some k \<and> length (trace w @ (a1 @ a2 @ a3)) + 11 \<le> k
                        \<and> k < length (trace w')
                        \<and> trace w' ! k
                            = GenerateBootScriptOverlay (builder c) (resolve_run_script E r)))"
  proof (cases "runSpec c")
    case None
    from run_spec_none [OF None 5] have "w' = w4" .
    with ta w3 None show ?thesis by simp
  next
    case (Some r)
    from run_spec_at [OF 5 i Some] obtain k where
      k: "hook_from w' i = Some k" "length (trace w4) \<le> k" "k < length (trace w')"
         "trace w' ! k = GenerateBootScriptOverlay (builder c) (resolve_run_script E r)"
      by blast
    with l4 Some show ?thesis by auto
  qed
  have "img c = Some i
           \<and> trace w' = trace w @ (a1 @ a2 @ a3) @
               [LogInfo (ApplyingInitScript s),
                GenerateBootScriptOverlay (builder c) (Some s), Mount i (mnt E),
                Rsync (path_join (overlay_dir E (builder c) (Some s)) ''*'')
                      (normpath E (mnt E @ ''/'')),
                Umount (mnt E),
                Print (''Launching: '' @ bin c),
                CheckCall (qemu_cmd c False),
                GenerateBootScriptOverlay (builder c) None, Mount i (mnt E),
                Rsync (path_join (overlay_dir E (builder c) None) ''*'')
                      (normpath E (mnt E @ ''/'')),
                Umount (mnt E)] @ a5
           \<and> (\<forall>argv. CheckCall argv \<notin> set (a1 @ a2 @ a3) \<union> set a5)
           \<and> boot_hook w' i = (case runSpec c of None \<Rightarrow> None | Some r \<Rightarrow> resolve_run_script E r)"
    using i a1 a2 a3 a5 t r by (simp split: option.splits)
  with origin show ?thesis by blast
qed

theorem makeImage_target_init_once_witness:
  "init wl_same_script = Some ''/s.sh''
   \<and> runSpec wl_same_script = Some \<lparr>command = None, path = Some ''/s.sh''\<rparr>
   \<and> fst (makeImage env0 wl_same_script world0) = None
   \<and> length (filter (\<lambda>e. \<exists>argv. e = CheckCall argv)
               (trace (snd (makeImage env0 wl_same_script world0)))) = 1
   \<and> boot_hook (snd (makeImage env0 wl_same_script world0)) ''/w.img'' = Some ''/s.sh''
   \<and> trace (snd (makeImage env0 wl_same_script world0)) ! 2
       = GenerateBootScriptOverlay ''br'' (Some ''/s.sh'')
   \<and> trace (snd (makeImage env0 wl_same_script world0)) ! 13
       = GenerateBootScriptOverlay ''br'' (Some ''/s.sh'')
   \<and> hook_from (snd (makeImage env0 wl_same_script world0)) ''/w.img'' = Some 13"
proof -
  have i: "init wl_same_script = Some ''/s.sh''"
    and g: "img wl_same_script = Some ''/w.img''"
    and r: "runSpec wl_same_script = Some \<lparr>command = None, path = Some ''/s.sh''\<rparr>"
    by (simp_all add: wl_same_script_def wl_img_def wl_meta_def)
  have ok: "fst (makeImage env0 wl_same_script world0) = None"
    and o2: "trace (snd (makeImage env0 wl_same_script world0)) ! 2
       = GenerateBootScriptOverlay ''br'' (Some ''/s.sh'')"
    and o13: "trace (snd (makeImage env0 wl_same_script world0)) ! 13
       = GenerateBootScriptOverlay ''br'' (Some ''/s.sh'')"
    and hf: "hook_from (snd (makeImage env0 wl_same_script world0)) ''/w.img'' = Some 13"
    by (simp_all add: run_defs wl_same_script_def wl_img_def wl_meta_def env0_def world0_def
          path_join_def)
  from ok have m: "makeImage env0 wl_same_script world0
                     = (None, snd (makeImage env0 wl_same_script world0))"
    by (metis prod.collapse)
  let ?P = "\<lambda>e. \<exists>argv. e = CheckCall argv"
  from makeImage_target_init_once [OF i m] obtain j pre post where
    j: "img wl_same_script = Some j"
    and t: "trace (snd (makeImage env0 wl_same_script world0)) = trace world0 @ pre @
               [LogInfo (ApplyingInitScript ''/s.sh''),
                GenerateBootScriptOverlay (builder wl_same_script) (Some ''/s.sh''),
                Mount j (mnt env0),
                Rsync (path_join (overlay_dir env0 (builder wl_same_script) (Some ''/s.sh''))
                         ''*'')
                      (normpath env0 (mnt env0 @ ''/'')),
                Umount (mnt env0),
                Print (''Launching: '' @ bin wl_same_script),
                CheckCall (qemu_cmd wl_same_script False),
                GenerateBootScriptOverlay (builder wl_same_script) None, Mount j (mnt env0),
                Rsync (path_join (overlay_dir env0 (builder wl_same_script) None) ''*'')
                      (normpath env0 (mnt env0 @ ''/'')),
                Umount (mnt env0)] @ post"
    and np: "\<forall>argv. CheckCall argv \<notin> set pre \<union> set post"
    and hk: "boot_hook (snd (makeImage env0 wl_same_script world0)) j
              = (case runSpec wl_same_script of None \<Rightarrow> None
                 | Some r \<Rightarrow> resolve_run_script env0 r)"
    by blast
  from j g have jj: "j = ''/w.img''" by simp
  from hk r jj have h: "boot_hook (snd (makeImage env0 wl_same_script world0)) ''/w.img''
                         = Some ''/s.sh''"
    by (simp add: resolve_run_script_def)
  from np have "filter ?P pre = []" and "filter ?P post = []"
    by (auto simp: filter_empty_conv)
  then have "length (filter ?P (trace (snd (makeImage env0 wl_same_script world0)))) = 1"
    unfolding t by (simp add: world0_def)
  with i r ok h o2 o13 hf show ?thesis by simp
qed

text \<open>C1 as stated fails when the init script does not exist: \<open>makeImage\<close> raises before
  any overlay is generated and the emulator is never launched.\<close>

theorem makeImage_raises_before_boot:
  "init wl_same_script = Some ''/s.sh''
   \<and> fst (makeImage env_missing wl_same_script world0)
       = Some (ValueError ''Init script /s.sh not found.'')
   \<and> trace (snd (makeImage env_missing wl_same_script world0))
       = [Copy ''/base.img'' ''/w.img'', LogInfo (ApplyingInitScript ''/s.sh'')]"
  by (simp add: run_defs wl_same_script_def wl_img_def wl_meta_def env_missing_def env0_def
        world0_def)

end
